theory Spec2Isabelle
  imports Main "HOL-Library.Word" "HOL-Library.Code_Target_Nat"
begin

unbundle bit_operations_syntax

section \<open>Addresses and networks (Go package \<open>net\<close>)\<close>

text \<open>
  The gate stores values of Go's \<open>net.IPNet\<close> and tests addresses of type \<open>net.IP\<close>
  against them. Both are byte slices: an \<open>IP\<close> has 4 or 16 bytes, an \<open>IPNet\<close> is a
  network number and a mask. The functions of this section are those of the Go standard
  library that \<open>cloudfrontgate.go\<close> calls (\<open>net.IPNet.Contains\<close>, \<open>net.CIDRMask\<close>,
  \<open>net.IP.Mask\<close>, \<open>net.IP.To4\<close>); a \<open>nil\<close> slice is the empty list.
\<close>

type_synonym byte = "8 word"

type_synonym IP = "byte list"

type_synonym IPMask = "byte list"

record IPNet =
  IP :: IP
  Mask :: IPMask

definition IPv4len :: nat where
  "IPv4len = 4"

definition IPv6len :: nat where
  "IPv6len = 16"

definition isZeros :: "byte list \<Rightarrow> bool" where
  "isZeros p = list_all (\<lambda>b. b = 0) p"

definition v4InV6Prefix :: "byte list" where
  "v4InV6Prefix = [0, 0, 0, 0, 0, 0, 0, 0, 0, 0, 0xff, 0xff]"

text \<open>
  \<open>IP.To4\<close>: the 4-byte form of an IPv4 address, also when it is held in its 16-byte
  IPv4-in-IPv6 form; \<open>None\<close> is Go's \<open>nil\<close> (not an IPv4 address).
\<close>

definition To4 :: "IP \<Rightarrow> IP option" where
  "To4 ip =
     (if length ip = IPv4len then Some ip
      else if length ip = IPv6len \<and> isZeros (take 10 ip) \<and> ip ! 10 = 0xff \<and> ip ! 11 = 0xff
        then Some (drop 12 ip)
      else None)"

text \<open>
  \<open>CIDRMask ones bits\<close>: the mask of \<open>bits\<close> bits whose first \<open>ones\<close> bits are set. The
  loop over the \<open>bits / 8\<close> bytes is \<open>CIDRMask_loop\<close>, with \<open>n\<close> the ones still to write.
\<close>

fun CIDRMask_loop :: "nat \<Rightarrow> nat \<Rightarrow> byte list" where
  "CIDRMask_loop n 0 = []"
| "CIDRMask_loop n (Suc l) =
     (if n \<ge> 8 then 0xff # CIDRMask_loop (n - 8) l
      else (NOT (drop_bit n (0xff :: byte))) # CIDRMask_loop 0 l)"

definition CIDRMask :: "nat \<Rightarrow> nat \<Rightarrow> IPMask" where
  "CIDRMask ones bits =
     (if bits \<noteq> 8 * IPv4len \<and> bits \<noteq> 8 * IPv6len then []
      else if ones > bits then []
      else CIDRMask_loop ones (bits div 8))"

definition allFF :: "byte list \<Rightarrow> bool" where
  "allFF b = list_all (\<lambda>c. c = 0xff) b"

text \<open>\<open>IP.Mask\<close>: the address with the mask applied bytewise; \<open>[]\<close> when the lengths do not fit.\<close>

definition IP_Mask :: "IP \<Rightarrow> IPMask \<Rightarrow> IP" where
  "IP_Mask ip0 mask0 =
     (let mask1 = (if length mask0 = IPv6len \<and> length ip0 = IPv4len \<and> allFF (take 12 mask0)
                   then drop 12 mask0 else mask0);
          ip1 = (if length mask1 = IPv4len \<and> length ip0 = IPv6len \<and> take 12 ip0 = v4InV6Prefix
                 then drop 12 ip0 else ip0)
      in if length ip1 \<noteq> length mask1 then []
         else map (\<lambda>i. (ip1 ! i) AND (mask1 ! i)) [0..<length ip1])"

text \<open>
  \<open>networkNumberAndMask\<close>: the network number and mask of a network, both of 4 bytes or
  both of 16; \<open>([], [])\<close> when the network is malformed.
\<close>

definition networkNumberAndMask :: "IPNet \<Rightarrow> IP \<times> IPMask" where
  "networkNumberAndMask n =
     (case (case To4 (IP n) of
              Some x \<Rightarrow> Some x
            | None \<Rightarrow> if length (IP n) \<noteq> IPv6len then None else Some (IP n)) of
        None \<Rightarrow> ([], [])
      | Some ip \<Rightarrow>
          if length (Mask n) = IPv4len then
            (if length ip \<noteq> IPv4len then ([], []) else (ip, Mask n))
          else if length (Mask n) = IPv6len then
            (if length ip = IPv4len then (ip, drop 12 (Mask n)) else (ip, Mask n))
          else ([], []))"

text \<open>\<open>IPNet.Contains\<close>: whether the network includes the address.\<close>

definition IPNet_Contains :: "IPNet \<Rightarrow> IP \<Rightarrow> bool" where
  "IPNet_Contains n ip0 =
     (let (nn, m) = networkNumberAndMask n;
          ip = (case To4 ip0 of Some x \<Rightarrow> x | None \<Rightarrow> ip0);
          l = length ip
      in if l \<noteq> length nn then False
         else list_all (\<lambda>i. (nn ! i) AND (m ! i) = (ip ! i) AND (m ! i)) [0..<l])"

section \<open>Errors\<close>

text \<open>
  Go errors as values: \<open>errors.New\<close>, \<open>fmt.Errorf\<close> wrapping another error with
  \<open>%w\<close>, \<open>fmt.Errorf\<close> formatting a string with \<open>%s\<close>, and the error types of the
  standard library's parsers and of the HTTP transport.
\<close>

datatype error =
    errors_New string
  | Errorf_w string error
  | Errorf_s string string
  | parseAddrError string string
  | net_ParseError string string
  | time_error string
  | transport_error string

section \<open>Parsing addresses (Go packages \<open>net/netip\<close> and \<open>net\<close>)\<close>

text \<open>
  \<open>net.ParseIP\<close> and \<open>net.ParseCIDR\<close> parse the address text with \<open>netip.ParseAddr\<close>.
  A Go string is a byte sequence, as \<open>string\<close> is here; the byte of a character is \<open>byteval\<close>.
\<close>

definition byteval :: "char \<Rightarrow> nat" where
  "byteval c = of_char c"

definition is_digit :: "char \<Rightarrow> bool" where
  "is_digit c = (byteval (CHR ''0'') \<le> byteval c \<and> byteval c \<le> byteval (CHR ''9''))"

text \<open>An address of \<open>netip\<close>: IPv4 (4 bytes), or IPv6 (16 bytes) with its zone.\<close>

datatype Addr = IPv4Addr "byte list" | IPv6Addr "byte list" string

fun Zone :: "Addr \<Rightarrow> string" where
  "Zone (IPv4Addr b) = []"
| "Zone (IPv6Addr b z) = z"

fun BitLen :: "Addr \<Rightarrow> nat" where
  "BitLen (IPv4Addr b) = 32"
| "BitLen (IPv6Addr b z) = 128"

fun As16 :: "Addr \<Rightarrow> byte list" where
  "As16 (IPv4Addr b) = v4InV6Prefix @ b"
| "As16 (IPv6Addr b z) = b"

text \<open>
  \<open>parseIPv4Fields\<close>: dotted decimal, four fields of at most 255 without leading zeros.
  The loop runs over the index \<open>i\<close> with the value \<open>val\<close> and the digit count \<open>digLen\<close> of
  the field being read, the number \<open>pos\<close> of fields stored and the fields themselves.
\<close>

function parseIPv4Fields_loop ::
  "string \<Rightarrow> nat \<Rightarrow> nat \<Rightarrow> nat \<Rightarrow> nat \<Rightarrow> byte list \<Rightarrow> error + (nat \<times> nat \<times> byte list)" where
  "parseIPv4Fields_loop s i val pos digLen flds =
     (if i < length s then
        (if is_digit (s ! i) then
           (if digLen = 1 \<and> val = 0 then
              Inl (parseAddrError s ''IPv4 field has octet with leading zero'')
            else
              (let val' = val * 10 + byteval (s ! i) - byteval (CHR ''0'') in
               if val' > 255 then Inl (parseAddrError s ''IPv4 field has value >255'')
               else parseIPv4Fields_loop s (Suc i) val' pos (Suc digLen) flds))
         else if s ! i = CHR ''.'' then
           (if i = 0 \<or> i = length s - 1 \<or> s ! (i - 1) = CHR ''.'' then
              Inl (parseAddrError s ''IPv4 field must have at least one digit'')
            else if pos = 3 then Inl (parseAddrError s ''IPv4 address too long'')
            else parseIPv4Fields_loop s (Suc i) 0 (Suc pos) 0 (flds[pos := of_nat val]))
         else Inl (parseAddrError s ''unexpected character''))
      else Inr (val, pos, flds))"
  by pat_completeness auto
termination
  by (relation "measure (\<lambda>(s, i, val, pos, digLen, flds). length s - i)") auto

definition parseIPv4Fields :: "string \<Rightarrow> error + byte list" where
  "parseIPv4Fields s =
     (case parseIPv4Fields_loop s 0 0 0 0 [0, 0, 0, 0] of
        Inl e \<Rightarrow> Inl e
      | Inr (val, pos, flds) \<Rightarrow>
          if pos < 3 then Inl (parseAddrError s ''IPv4 address too short'')
          else Inr (flds[3 := of_nat val]))"

definition parseIPv4 :: "string \<Rightarrow> error + Addr" where
  "parseIPv4 s = (case parseIPv4Fields s of Inl e \<Rightarrow> Inl e | Inr flds \<Rightarrow> Inr (IPv4Addr flds))"

text \<open>
  \<open>parseIPv6\<close>. The inner loop reads one group of hexadecimal digits: \<open>off\<close> digits read,
  \<open>acc\<close> their value; more than four digits is an error.
\<close>

definition hexval :: "char \<Rightarrow> nat option" where
  "hexval c =
     (if byteval (CHR ''0'') \<le> byteval c \<and> byteval c \<le> byteval (CHR ''9'')
        then Some (byteval c - byteval (CHR ''0''))
      else if byteval (CHR ''a'') \<le> byteval c \<and> byteval c \<le> byteval (CHR ''f'')
        then Some (byteval c - byteval (CHR ''a'') + 10)
      else if byteval (CHR ''A'') \<le> byteval c \<and> byteval c \<le> byteval (CHR ''F'')
        then Some (byteval c - byteval (CHR ''A'') + 10)
      else None)"

function parseIPv6_hex :: "string \<Rightarrow> string \<Rightarrow> nat \<Rightarrow> nat \<Rightarrow> error + (nat \<times> nat)" where
  "parseIPv6_hex inp s off acc =
     (if off < length s then
        (case hexval (s ! off) of
           None \<Rightarrow> Inr (off, acc)
         | Some d \<Rightarrow>
             (let acc' = acc * 16 + d in
              if off > 3 then Inl (parseAddrError inp ''each group must have 4 or less digits'')
              else if acc' > 65535 then Inl (parseAddrError inp ''IPv6 field has value >=2^16'')
              else parseIPv6_hex inp s (Suc off) acc'))
      else Inr (off, acc))"
  by pat_completeness auto
termination
  by (relation "measure (\<lambda>(inp, s, off, acc). length s - off)") auto

text \<open>
  The outer loop of \<open>parseIPv6\<close>: \<open>s\<close> is the text still to read, \<open>i\<close> the number of bytes
  of \<open>ip\<close> written, \<open>ellipsis\<close> the position of \<open>::\<close> in \<open>ip\<close> (\<open>None\<close> is Go's \<open>-1\<close>). It
  returns the state in which the loop ends.
\<close>

function parseIPv6_loop ::
  "string \<Rightarrow> string \<Rightarrow> nat \<Rightarrow> byte list \<Rightarrow> nat option
     \<Rightarrow> error + (string \<times> nat \<times> byte list \<times> nat option)" where
  "parseIPv6_loop inp s i ip ellipsis =
     (if i < 16 then
        (case parseIPv6_hex inp s 0 0 of
           Inl e \<Rightarrow> Inl e
         | Inr (off, acc) \<Rightarrow>
             if off = 0 then
               Inl (parseAddrError inp ''each colon-separated field must have at least one digit'')
             else if off < length s \<and> s ! off = CHR ''.'' then
               (if ellipsis = None \<and> i \<noteq> 12 then
                  Inl (parseAddrError inp
                    ''embedded IPv4 address must replace the final 2 fields of the address'')
                else if i + 4 > 16 then
                  Inl (parseAddrError inp
                    ''too many hex fields to fit an embedded IPv4 at the end of the address'')
                else
                  (case parseIPv4Fields s of
                     Inl e \<Rightarrow> Inl e
                   | Inr flds \<Rightarrow>
                       Inr ([], i + 4, take i ip @ flds @ drop (i + 4) ip, ellipsis)))
             else
               (let ip' = ip[i := of_nat (acc div 256), i + 1 := of_nat acc];
                    i' = i + 2;
                    s' = drop off s
                in if s' = [] then Inr (s', i', ip', ellipsis)
                   else if s' ! 0 \<noteq> CHR '':'' then
                     Inl (parseAddrError inp ''unexpected character, want colon'')
                   else if length s' = 1 then
                     Inl (parseAddrError inp ''colon must be followed by more characters'')
                   else
                     (let s'' = drop 1 s' in
                      if s'' ! 0 = CHR '':'' then
                        (if ellipsis \<noteq> None then
                           Inl (parseAddrError inp ''multiple :: in address'')
                         else if drop 1 s'' = [] then Inr ([], i', ip', Some i')
                         else parseIPv6_loop inp (drop 1 s'') i' ip' (Some i'))
                      else parseIPv6_loop inp s'' i' ip' ellipsis)))
      else Inr (s, i, ip, ellipsis))"
  by pat_completeness auto
termination
  by (relation "measure (\<lambda>(inp, s, i, ip, ellipsis). 16 - i)") auto

text \<open>The index of the first byte \<open>c\<close> of a string (\<open>bytealg.IndexByteString\<close>); \<open>None\<close> is \<open>-1\<close>.\<close>

fun IndexByteString :: "string \<Rightarrow> char \<Rightarrow> nat option" where
  "IndexByteString [] c = None"
| "IndexByteString (x # xs) c =
     (if x = c then Some 0 else map_option Suc (IndexByteString xs c))"

definition parseIPv6 :: "string \<Rightarrow> error + Addr" where
  "parseIPv6 inp =
     (case (case IndexByteString inp (CHR ''%'') of
              None \<Rightarrow> Inr (inp, [])
            | Some k \<Rightarrow>
                if drop (Suc k) inp = []
                then Inl (parseAddrError inp ''zone must be a non-empty string'')
                else Inr (take k inp, drop (Suc k) inp)) of
        Inl e \<Rightarrow> Inl e
      | Inr (s0, zone) \<Rightarrow>
          (let lead = (length s0 \<ge> 2 \<and> s0 ! 0 = CHR '':'' \<and> s0 ! 1 = CHR '':'');
               ellipsis0 = (if lead then Some 0 else None);
               s1 = (if lead then drop 2 s0 else s0)
           in if lead \<and> s1 = [] then Inr (IPv6Addr (replicate 16 0) zone)
              else
                (case parseIPv6_loop inp s1 0 (replicate 16 0) ellipsis0 of
                   Inl e \<Rightarrow> Inl e
                 | Inr (s, i, ip, ellipsis) \<Rightarrow>
                     if s \<noteq> [] then Inl (parseAddrError inp ''trailing garbage after address'')
                     else if i < 16 then
                       (case ellipsis of
                          None \<Rightarrow> Inl (parseAddrError inp ''address string too short'')
                        | Some e \<Rightarrow>
                            (let n = 16 - i;
                                 moved = fold (\<lambda>j a. a[j + n := a ! j]) (rev [e..<i]) ip;
                                 cleared = fold (\<lambda>j a. a[j := 0]) [e..<e + n] moved
                             in Inr (IPv6Addr cleared zone)))
                     else if ellipsis \<noteq> None then
                       Inl (parseAddrError inp
                         ''the :: must expand to at least one field of zeros'')
                     else Inr (IPv6Addr ip zone))))"

text \<open>
  \<open>netip.ParseAddr\<close>: the first \<open>.\<close>, \<open>:\<close> or \<open>%\<close> of the text decides how it is read; a text
  with none of them is not an address.
\<close>

fun ParseAddr_scan :: "string \<Rightarrow> string \<Rightarrow> error + Addr" where
  "ParseAddr_scan s [] = Inl (parseAddrError s ''unable to parse IP'')"
| "ParseAddr_scan s (c # cs) =
     (if c = CHR ''.'' then parseIPv4 s
      else if c = CHR '':'' then parseIPv6 s
      else if c = CHR ''%'' then Inl (parseAddrError s ''missing IPv6 address'')
      else ParseAddr_scan s cs)"

definition ParseAddr :: "string \<Rightarrow> error + Addr" where
  "ParseAddr s = ParseAddr_scan s s"

text \<open>\<open>net.ParseIP\<close>: the 16-byte form of the address, \<open>None\<close> (Go's \<open>nil\<close>) when it does not parse.\<close>

definition ParseIP :: "string \<Rightarrow> IP option" where
  "ParseIP s =
     (case ParseAddr s of
        Inl e \<Rightarrow> None
      | Inr a \<Rightarrow> if Zone a \<noteq> [] then None else Some (As16 a))"

text \<open>
  \<open>dtoi\<close>: the decimal number at the start of a string, the number of bytes read, and
  whether a number below \<open>0xFFFFFF\<close> was read.
\<close>

definition big :: nat where
  "big = 0xFFFFFF"

function dtoi_loop :: "string \<Rightarrow> nat \<Rightarrow> nat \<Rightarrow> nat \<times> nat \<times> bool" where
  "dtoi_loop s n i =
     (if i < length s \<and> is_digit (s ! i) then
        (let n' = n * 10 + (byteval (s ! i) - byteval (CHR ''0'')) in
         if n' \<ge> big then (big, i, False) else dtoi_loop s n' (Suc i))
      else if i = 0 then (0, 0, False)
      else (n, i, True))"
  by pat_completeness auto
termination
  by (relation "measure (\<lambda>(s, n, i). length s - i)") auto

definition dtoi :: "string \<Rightarrow> nat \<times> nat \<times> bool" where
  "dtoi s = dtoi_loop s 0 0"

text \<open>
  \<open>net.ParseCIDR\<close>: address, \<open>/\<close>, prefix length. It returns the address and the network:
  the address masked to the prefix, and the mask.
\<close>

definition ParseCIDR :: "string \<Rightarrow> error + (IP \<times> IPNet)" where
  "ParseCIDR s =
     (case IndexByteString s (CHR ''/'') of
        None \<Rightarrow> Inl (net_ParseError ''CIDR address'' s)
      | Some i \<Rightarrow>
          (let addr = take i s; mask = drop (Suc i) s in
           case ParseAddr addr of
             Inl e \<Rightarrow> Inl (net_ParseError ''CIDR address'' s)
           | Inr ipAddr \<Rightarrow>
               if Zone ipAddr \<noteq> [] then Inl (net_ParseError ''CIDR address'' s)
               else
                 (case dtoi mask of
                    (n, j, ok) \<Rightarrow>
                      if \<not> ok \<or> j \<noteq> length mask \<or> n > BitLen ipAddr
                      then Inl (net_ParseError ''CIDR address'' s)
                      else
                        (let m = CIDRMask n (BitLen ipAddr);
                             addr16 = As16 ipAddr
                         in Inr (addr16, \<lparr>IP = IP_Mask addr16 m, Mask = m\<rparr>)))))"


section \<open>Parsing durations (Go package \<open>time\<close>)\<close>

text \<open>
  \<open>time.ParseDuration\<close> reads a signed sequence of decimal numbers, each with an optional
  fraction and a unit, into a number of nanoseconds (\<open>int64\<close>). The integer arithmetic is
  that of the library, on \<open>uint64\<close>. The one floating-point expression of the library,
  \<open>uint64(float64(f) * (float64(unit) / scale))\<close> for a fraction of \<open>f\<close> over
  \<open>scale = 10 ^ k\<close>, is the parameter \<open>fmul f unit k\<close> of the model.
\<close>

definition errLeadingInt :: error where
  "errLeadingInt = time_error ''time: bad [0-9]*''"

fun leadingInt_loop :: "nat \<Rightarrow> string \<Rightarrow> error + (nat \<times> string)" where
  "leadingInt_loop x [] = Inr (x, [])"
| "leadingInt_loop x (c # cs) =
     (if \<not> is_digit c then Inr (x, c # cs)
      else if x > 2 ^ 63 div 10 then Inl errLeadingInt
      else
        (let x' = x * 10 + byteval c - byteval (CHR ''0'') in
         if x' > 2 ^ 63 then Inl errLeadingInt else leadingInt_loop x' cs))"

definition leadingInt :: "string \<Rightarrow> error + (nat \<times> string)" where
  "leadingInt s = leadingInt_loop 0 s"

fun leadingFraction_loop :: "nat \<Rightarrow> nat \<Rightarrow> bool \<Rightarrow> string \<Rightarrow> nat \<times> nat \<times> string" where
  "leadingFraction_loop x k overflow [] = (x, k, [])"
| "leadingFraction_loop x k overflow (c # cs) =
     (if \<not> is_digit c then (x, k, c # cs)
      else if overflow then leadingFraction_loop x k overflow cs
      else if x > (2 ^ 63 - 1) div 10 then leadingFraction_loop x k True cs
      else
        (let y = x * 10 + byteval c - byteval (CHR ''0'') in
         if y > 2 ^ 63 then leadingFraction_loop x k True cs
         else leadingFraction_loop y (Suc k) overflow cs))"

definition leadingFraction :: "string \<Rightarrow> nat \<times> nat \<times> string" where
  "leadingFraction s = leadingFraction_loop 0 0 False s"

definition Nanosecond :: nat where
  "Nanosecond = 1"

definition Microsecond :: nat where
  "Microsecond = 1000 * Nanosecond"

definition Millisecond :: nat where
  "Millisecond = 1000 * Microsecond"

definition Second :: nat where
  "Second = 1000 * Millisecond"

definition Minute :: nat where
  "Minute = 60 * Second"

definition Hour :: nat where
  "Hour = 60 * Minute"

text \<open>The units; the two spellings of the micro sign are the UTF-8 bytes of U+00B5 and U+03BC.\<close>

definition unitMap :: "string \<Rightarrow> nat option" where
  "unitMap u =
     (if u = ''ns'' then Some Nanosecond
      else if u = ''us'' then Some Microsecond
      else if u = [CHR 0xC2, CHR 0xB5, CHR ''s''] then Some Microsecond
      else if u = [CHR 0xCE, CHR 0xBC, CHR ''s''] then Some Microsecond
      else if u = ''ms'' then Some Millisecond
      else if u = ''s'' then Some Second
      else if u = ''m'' then Some Minute
      else if u = ''h'' then Some Hour
      else None)"

text \<open>The length of the unit at the start of a string: up to the next \<open>.\<close> or digit.\<close>

fun unit_length :: "string \<Rightarrow> nat" where
  "unit_length [] = 0"
| "unit_length (c # cs) = (if c = CHR ''.'' \<or> is_digit c then 0 else Suc (unit_length cs))"

text \<open>
  \<open>quote\<close> of package \<open>time\<close>: the text between double quotes, with a backslash before
  a double quote or a backslash. Go walks the text rune by rune and writes every byte of
  a rune outside printable ASCII (and every invalid byte) as a backslash, \<open>x\<close> and two
  hexadecimal digits, which is the same text as writing each such byte so.
\<close>

definition lowerhex :: string where
  "lowerhex = ''0123456789abcdef''"

definition quote_byte :: "char \<Rightarrow> string" where
  "quote_byte c =
     (if byteval c \<ge> 0x80 \<or> byteval c < byteval (CHR '' '') then
        [CHR 0x5C, CHR ''x'', lowerhex ! (byteval c div 16), lowerhex ! (byteval c mod 16)]
      else if c = CHR 0x22 \<or> c = CHR 0x5C then [CHR 0x5C, c]
      else [c])"

definition quote :: "string \<Rightarrow> string" where
  "quote s = CHR 0x22 # concat (map quote_byte s) @ [CHR 0x22]"

definition invalid_duration :: "string \<Rightarrow> error" where
  "invalid_duration orig = time_error (''time: invalid duration '' @ quote orig)"

text \<open>
  The optional fraction after the integer: the digits \<open>f\<close> after the point, their number
  \<open>k\<close>, whether any digit was read, and the rest of the text.
\<close>

definition fraction_part :: "string \<Rightarrow> nat \<times> nat \<times> bool \<times> string" where
  "fraction_part s1 =
     (if s1 \<noteq> [] \<and> s1 ! 0 = CHR ''.''
      then (case leadingFraction (drop 1 s1) of
              (f, k, r) \<Rightarrow> (f, k, length (drop 1 s1) \<noteq> length r, r))
      else (0, 0, False, s1))"

lemma unit_length_le: "unit_length s \<le> length s"
  by (induction s) auto

lemma leadingInt_loop_length:
  "leadingInt_loop x s = Inr (v, r) \<Longrightarrow> length r \<le> length s"
  by (induction s arbitrary: x) (fastforce simp: Let_def split: if_splits)+

lemma leadingFraction_loop_length:
  "leadingFraction_loop x k ov s = (f, k', r) \<Longrightarrow> length r \<le> length s"
proof (induction s arbitrary: x k ov)
  case Nil
  then show ?case by simp
next
  case (Cons c cs)
  then show ?case
    by (fastforce simp: Let_def split: if_splits)
qed

lemma fraction_part_length:
  assumes "fraction_part s1 = (f, k, post, s2)"
  shows "length s2 \<le> length s1"
proof (cases "s1 \<noteq> [] \<and> s1 ! 0 = CHR ''.''")
  case True
  obtain f' k' r where lf: "leadingFraction_loop 0 0 False (drop 1 s1) = (f', k', r)"
    by (cases "leadingFraction_loop 0 0 False (drop 1 s1)") auto
  from leadingFraction_loop_length [OF lf] have "length r \<le> length s1" by simp
  moreover from assms True lf have "s2 = r"
    by (simp add: fraction_part_def leadingFraction_def)
  ultimately show ?thesis by simp
next
  case False
  with assms show ?thesis by (auto simp: fraction_part_def)
qed

text \<open>
  The loop of \<open>ParseDuration\<close> over the text still to read, with the sum \<open>d\<close> so far
  (\<open>d += v\<close> on \<open>uint64\<close> wraps around).
\<close>

function ParseDuration_loop ::
  "(nat \<Rightarrow> nat \<Rightarrow> nat \<Rightarrow> nat) \<Rightarrow> string \<Rightarrow> string \<Rightarrow> nat \<Rightarrow> error + nat" where
  "ParseDuration_loop fmul orig s d =
     (if s = [] then Inr d
      else if \<not> (s ! 0 = CHR ''.'' \<or> is_digit (s ! 0)) then Inl (invalid_duration orig)
      else
        (case leadingInt s of
           Inl e \<Rightarrow> Inl (invalid_duration orig)
         | Inr (v, s1) \<Rightarrow>
             (let pre = (length s \<noteq> length s1);
                  (f, k, post, s2) = fraction_part s1
              in if \<not> pre \<and> \<not> post then Inl (invalid_duration orig)
                 else
                   (let i = unit_length s2 in
                    if i = 0 then
                      Inl (time_error (''time: missing unit in duration '' @ quote orig))
                    else
                      (case unitMap (take i s2) of
                         None \<Rightarrow>
                           Inl (time_error (''time: unknown unit '' @ quote (take i s2)
                                  @ '' in duration '' @ quote orig))
                       | Some unit \<Rightarrow>
                           if v > 2 ^ 63 div unit then Inl (invalid_duration orig)
                           else
                             (let v1 = v * unit;
                                  v2 = (if f > 0 then v1 + fmul f unit k else v1)
                              in if f > 0 \<and> v2 > 2 ^ 63 then Inl (invalid_duration orig)
                                 else
                                   (let d' = (d + v2) mod 2 ^ 64 in
                                    if d' > 2 ^ 63 then Inl (invalid_duration orig)
                                    else ParseDuration_loop fmul orig (drop i s2) d')))))))"
  by pat_completeness auto
termination
proof (relation "measure (\<lambda>(fmul, orig, s, d). length s)", goal_cases)
  case 1
  then show ?case by simp
next
  case (2 fmul orig s d x2 v s1 pre fkps f kps k ps post s2 i unit v1 v2 d')
  have "leadingInt_loop 0 s = Inr (v, s1)"
    using 2(3,4) by (simp add: leadingInt_def)
  then have l1: "length s1 \<le> length s"
    by (rule leadingInt_loop_length)
  have "fraction_part s1 = (f, k, post, s2)"
    using 2(6-9) by simp
  then have l2: "length s2 \<le> length s1"
    by (rule fraction_part_length)
  have "i \<le> length s2"
    using 2(11) by (simp add: unit_length_le)
  with l1 l2 2(12) show ?case by simp
qed

definition ParseDuration :: "(nat \<Rightarrow> nat \<Rightarrow> nat \<Rightarrow> nat) \<Rightarrow> string \<Rightarrow> error + int" where
  "ParseDuration fmul orig =
     (let signed = (orig \<noteq> [] \<and> (orig ! 0 = CHR ''-'' \<or> orig ! 0 = CHR ''+''));
          neg = (signed \<and> orig ! 0 = CHR ''-'');
          s = (if signed then drop 1 orig else orig)
      in if s = ''0'' then Inr 0
         else if s = [] then Inl (invalid_duration orig)
         else
           (case ParseDuration_loop fmul orig s 0 of
              Inl e \<Rightarrow> Inl e
            | Inr d \<Rightarrow>
                if neg then Inr (- int d)
                else if d > 2 ^ 63 - 1 then Inl (invalid_duration orig)
                else Inr (int d)))"

section \<open>The plugin (\<open>cloudfrontgate.go\<close>)\<close>

subsection \<open>Strings\<close>

text \<open>
  \<open>strings.Contains s substr\<close>, and \<open>strings.Split s sep\<close> for a separator of one byte
  (the only separator the plugin splits at is \<open>:\<close>). \<open>Split\<close> returns at least one piece.
\<close>

fun strings_Contains :: "string \<Rightarrow> string \<Rightarrow> bool" where
  "strings_Contains [] substr = (substr = [])"
| "strings_Contains (c # cs) substr =
     (if take (length substr) (c # cs) = substr then True else strings_Contains cs substr)"

fun strings_Split :: "string \<Rightarrow> char \<Rightarrow> string list" where
  "strings_Split [] sep = [[]]"
| "strings_Split (c # cs) sep =
     (if c = sep then [] # strings_Split cs sep
      else (case strings_Split cs sep of
              [] \<Rightarrow> [[c]]
            | p # ps \<Rightarrow> (c # p) # ps))"

subsection \<open>Constants and configuration\<close>

datatype contextKey = contextKey string

definition CTXHTTPTimeout :: contextKey where
  "CTXHTTPTimeout = contextKey ''HTTPTimeout''"

definition CTXTrustedIPs :: contextKey where
  "CTXTrustedIPs = contextKey ''TrustedIPs''"

definition CFAPI :: string where
  "CFAPI = ''https://d7uri8nf7uskq.cloudfront.net/tools/list-cloudfront-ips''"

definition HTTPTimeoutDefault :: int where
  "HTTPTimeoutDefault = 5"

record Config =
  RefreshInterval :: string
  AllowedIPs :: "string list"

definition CreateConfig :: Config where
  "CreateConfig = \<lparr>RefreshInterval = ''24h'', AllowedIPs = []\<rparr>"

text \<open>
  A value of Go's empty interface, as far as the plugin tells values apart: \<open>nil\<close>, an
  \<open>int\<close>, a \<open>[]net.IPNet\<close>, or a value of another type. A type assertion is a case
  distinction on it.
\<close>

datatype any = AnyNil | AnyInt int | AnyNets "IPNet list" | AnyOther string

text \<open>
  A \<open>context.Context\<close> as the plugin reads it: the value stored under each key of type
  \<open>contextKey\<close> (\<open>nil\<close> when there is none). \<open>WithValue\<close> adds one.
\<close>

type_synonym ctx = "contextKey \<Rightarrow> any"

definition WithValue :: "ctx \<Rightarrow> contextKey \<Rightarrow> any \<Rightarrow> ctx" where
  "WithValue c k v = c(k := v)"

definition createContext :: "ctx \<Rightarrow> int \<Rightarrow> IPNet list \<Rightarrow> ctx" where
  "createContext c timeout trustedIPs =
     WithValue (WithValue c CTXHTTPTimeout (AnyInt timeout)) CTXTrustedIPs (AnyNets trustedIPs)"

subsection \<open>Parsing the range lists\<close>

text \<open>
  \<open>parseCIDRs\<close>: every entry is parsed as a CIDR, an entry without \<open>/\<close> after \<open>/32\<close> is
  appended to it; the first entry that does not parse fails the whole list.
\<close>

fun parseCIDRs_loop :: "string list \<Rightarrow> IPNet list \<Rightarrow> error + IPNet list" where
  "parseCIDRs_loop [] trustedIPs = Inr trustedIPs"
| "parseCIDRs_loop (ip # rest) trustedIPs =
     (let ip' = (if \<not> strings_Contains ip ''/'' then ip @ ''/32'' else ip) in
      case ParseCIDR ip' of
        Inl err \<Rightarrow> Inl (Errorf_w ''failed to parse CIDR'' err)
      | Inr (a, ipNet) \<Rightarrow> parseCIDRs_loop rest (trustedIPs @ [ipNet]))"

definition parseCIDRs :: "string list \<Rightarrow> error + IPNet list" where
  "parseCIDRs ips = parseCIDRs_loop ips []"

record CFResponse =
  GlobalIPList :: "string list"
  RegionalEdgeIPList :: "string list"

definition parseResponse :: "CFResponse \<Rightarrow> error + IPNet list" where
  "parseResponse resp =
     (case parseCIDRs (GlobalIPList resp) of
        Inl err \<Rightarrow> Inl (Errorf_w ''failed to parse CLOUDFRONT_GLOBAL_IP_LIST CIDRs'' err)
      | Inr globalIPList \<Rightarrow>
          (case parseCIDRs (RegionalEdgeIPList resp) of
             Inl err \<Rightarrow>
               Inl (Errorf_w ''failed to parse CLOUDFRONT_REGIONAL_EDGE_IP_LIST CIDRs'' err)
           | Inr regionalEdgeIPList \<Rightarrow> Inr (globalIPList @ regionalEdgeIPList)))"

subsection \<open>The store\<close>

text \<open>
  \<open>ipstore\<close>: the URL of the range list and an \<open>atomic.Value\<close>, here the value it holds
  (\<open>AnyNil\<close> before the first \<open>Store\<close>).
\<close>

record ipstore =
  cfAPI :: string
  held :: any

definition Store :: "ipstore \<Rightarrow> any \<Rightarrow> ipstore" where
  "Store s x = s\<lparr>held := x\<rparr>"

definition Load :: "ipstore \<Rightarrow> any" where
  "Load s = held s"

definition newIPStore :: "string \<Rightarrow> ipstore" where
  "newIPStore cfURL = Store \<lparr>cfAPI = cfURL, held = AnyNil\<rparr> (AnyNets [])"

fun Contains_loop :: "IPNet list \<Rightarrow> IP \<Rightarrow> bool" where
  "Contains_loop [] ip = False"
| "Contains_loop (ipNet # rest) ip =
     (if IPNet_Contains ipNet ip then True else Contains_loop rest ip)"

definition ipstore_Contains :: "ipstore \<Rightarrow> IP \<Rightarrow> bool" where
  "ipstore_Contains s ip =
     (case Load s of
        AnyNets cidrs \<Rightarrow> Contains_loop cidrs ip
      | _ \<Rightarrow> False)"

text \<open>
  What the network answers to one fetch: the results of \<open>http.NewRequestWithContext\<close>
  for the URL, of \<open>client.Do\<close> (status code, status text), of \<open>io.ReadAll\<close> on the body,
  and of \<open>json.Unmarshal\<close> on the bytes read.
\<close>

record env =
  NewRequest :: "string \<Rightarrow> error option"
  Do :: "error + (nat \<times> string)"
  ReadAll :: "error + string"
  Unmarshal :: "string \<Rightarrow> error + CFResponse"

definition StatusOK :: nat where
  "StatusOK = 200"

definition fetch :: "ipstore \<Rightarrow> ctx \<Rightarrow> env \<Rightarrow> error + IPNet list" where
  "fetch s c w =
     (case c CTXHTTPTimeout of
        AnyInt timeout \<Rightarrow>
          (case NewRequest w (cfAPI s) of
             Some err \<Rightarrow> Inl (Errorf_w ''failed to create request'' err)
           | None \<Rightarrow>
               (case Do w of
                  Inl err \<Rightarrow> Inl (Errorf_w ''failed to execute request'' err)
                | Inr (code, status) \<Rightarrow>
                    if code \<noteq> StatusOK then Inl (Errorf_s ''unexpected response status'' status)
                    else
                      (case ReadAll w of
                         Inl err \<Rightarrow> Inl (Errorf_w ''failed to read response body'' err)
                       | Inr body \<Rightarrow>
                           (case Unmarshal w body of
                              Inl err \<Rightarrow> Inl (Errorf_w ''failed to unmarshal response'' err)
                            | Inr resp \<Rightarrow> parseResponse resp))))
      | _ \<Rightarrow> Inl (errors_New ''invalid timeout value''))"

text \<open>\<open>Update\<close> returns the store after the call and the error (\<open>None\<close> is \<open>nil\<close>).\<close>

definition Update :: "ipstore \<Rightarrow> ctx \<Rightarrow> env \<Rightarrow> ipstore \<times> error option" where
  "Update s c w =
     (case c CTXTrustedIPs of
        AnyNets trustedIPs \<Rightarrow>
          (case fetch s c w of
             Inl err \<Rightarrow> (s, Some err)
           | Inr fetchedCIDRs \<Rightarrow> (Store s (AnyNets (trustedIPs @ fetchedCIDRs)), None))
      | _ \<Rightarrow> (s, Some (errors_New ''invalid trusted IPs value'')))"

subsection \<open>The gate\<close>

record 'h CloudFrontGate =
  next_handler :: 'h
  name :: string
  ips :: ipstore
  refreshInterval :: int
  trustedIPs :: "IPNet list"

text \<open>
  \<open>New\<close>: the gate, or the error. The refresh loop it starts as a goroutine is \<open>refreshLoop\<close>
  below, run on the gate returned.
\<close>

definition New ::
  "(nat \<Rightarrow> nat \<Rightarrow> nat \<Rightarrow> nat) \<Rightarrow> env \<Rightarrow> ctx \<Rightarrow> 'h \<Rightarrow> Config \<Rightarrow> string
     \<Rightarrow> error + 'h CloudFrontGate" where
  "New fmul w c nxt config nm =
     (let store = newIPStore CFAPI in
      case ParseDuration fmul (RefreshInterval config) of
        Inl err \<Rightarrow> Inl (Errorf_w ''failed to parse refresh interval'' err)
      | Inr interval \<Rightarrow>
          (case parseCIDRs (AllowedIPs config) of
             Inl err \<Rightarrow> Inl (Errorf_w ''failed to parse trusted IPs'' err)
           | Inr trusted \<Rightarrow>
               (let ctxUpdate = createContext c HTTPTimeoutDefault trusted in
                case Update store ctxUpdate w of
                  (store', Some err) \<Rightarrow>
                    Inl (Errorf_w ''failed to update CloudFront IP ranges'' err)
                | (store', None) \<Rightarrow>
                    Inr \<lparr>next_handler = nxt, name = nm, ips = store',
                         refreshInterval = interval, trustedIPs = trusted\<rparr>)))"

text \<open>
  \<open>ServeHTTP\<close>: what the gate does with a request, and the gate after it. \<open>Forbidden\<close> is
  \<open>http.Error(rw, "Forbidden", 403)\<close> and the return; \<open>Delegated req\<close> is the call of the
  next handler with the request; \<open>IndexPanic\<close> is the panic of an index out of range.
\<close>

record Request =
  RemoteAddr :: string

datatype outcome = Forbidden | Delegated Request | IndexPanic

definition ServeHTTP :: "'h CloudFrontGate \<Rightarrow> Request \<Rightarrow> 'h CloudFrontGate \<times> outcome" where
  "ServeHTTP cf req =
     (case strings_Split (RemoteAddr req) (CHR '':'') of
        [] \<Rightarrow> (cf, IndexPanic)
      | host # others \<Rightarrow>
          (case ParseIP host of
             None \<Rightarrow> (cf, Forbidden)
           | Some remoteIP \<Rightarrow>
               if \<not> ipstore_Contains (ips cf) remoteIP then (cf, Forbidden)
               else (cf, Delegated req)))"

text \<open>
  \<open>refreshLoop\<close>. \<open>time.NewTicker\<close> panics on an interval that is not positive. Otherwise
  the loop handles what arrives on its two channels, in the order of arrival: a tick
  (with what the network answers to that refresh), or the cancellation of the context.
  It is run on a finite sequence of events; it is \<open>Waiting\<close> when they are used up. The
  lines it logs are collected.
\<close>

datatype event = Tick env | CtxDone

datatype 'h loop_result =
    TickerPanic
  | Stopped "'h CloudFrontGate" "error list"
  | Waiting "'h CloudFrontGate" "error list"

fun refreshLoop_select ::
  "ctx \<Rightarrow> 'h CloudFrontGate \<Rightarrow> error list \<Rightarrow> event list \<Rightarrow> 'h loop_result" where
  "refreshLoop_select c cf logged [] = Waiting cf logged"
| "refreshLoop_select c cf logged (CtxDone # evs) = Stopped cf logged"
| "refreshLoop_select c cf logged (Tick w # evs) =
     (let ctxUpdate = createContext c HTTPTimeoutDefault (trustedIPs cf) in
      case Update (ips cf) ctxUpdate w of
        (store', Some err) \<Rightarrow>
          refreshLoop_select c (cf\<lparr>ips := store'\<rparr>)
            (logged @ [Errorf_w ''Failed to update CloudFront IP ranges'' err]) evs
      | (store', None) \<Rightarrow> refreshLoop_select c (cf\<lparr>ips := store'\<rparr>) logged evs)"

definition refreshLoop :: "ctx \<Rightarrow> 'h CloudFrontGate \<Rightarrow> event list \<Rightarrow> 'h loop_result" where
  "refreshLoop c cf evs =
     (if refreshInterval cf \<le> 0 then TickerPanic else refreshLoop_select c cf [] evs)"

section \<open>Ranges and prefix matching, as the specification words them\<close>

text \<open>
  The specification speaks of a network range as a base address with a prefix length,
  and of an address lying within the prefix of a range. These definitions follow its
  words; they are compared with \<open>IPNet_Contains\<close>, the code, below. An address is a
  number of 32 bits (IPv4) or of 128 bits (IPv6), the bytes read big-endian. As in Go, an
  IPv6 address of the form \<open>::ffff:a.b.c.d\<close> counts as the IPv4 address \<open>a.b.c.d\<close>.
\<close>

datatype family = V4 | V6

fun width :: "family \<Rightarrow> nat" where
  "width V4 = 32"
| "width V6 = 128"

fun be_nat :: "byte list \<Rightarrow> nat" where
  "be_nat [] = 0"
| "be_nat (b # bs) = unat b * 256 ^ length bs + be_nat bs"

text \<open>The bits of a byte, the highest first, and the number of leading ones of a mask.\<close>

definition byte_bits :: "byte \<Rightarrow> bool list" where
  "byte_bits b = map (bit b) [7, 6, 5, 4, 3, 2, 1, 0]"

definition mask_ones :: "IPMask \<Rightarrow> nat" where
  "mask_ones m = length (takeWhile (\<lambda>x. x) (concat (map byte_bits m)))"

record NetworkRange =
  fam :: family
  base :: nat
  plen :: nat

text \<open>
  The range a network stands for: its family, its base address as a number and its
  prefix length. A network whose number is an IPv4 address under a mask of 16 bytes
  has the prefix length of the last four bytes of the mask.
\<close>

definition range_of :: "IPNet \<Rightarrow> NetworkRange" where
  "range_of n =
     (case To4 (IP n) of
        Some x \<Rightarrow>
          \<lparr>fam = V4, base = be_nat x,
           plen = (if length (Mask n) = IPv6len then mask_ones (Mask n) - 96
                   else mask_ones (Mask n))\<rparr>
      | None \<Rightarrow> \<lparr>fam = V6, base = be_nat (IP n), plen = mask_ones (Mask n)\<rparr>)"

definition address_of :: "IP \<Rightarrow> family \<times> nat" where
  "address_of ip = (case To4 ip of Some x \<Rightarrow> (V4, be_nat x) | None \<Rightarrow> (V6, be_nat ip))"

text \<open>
  Prefix matching: the address is of the family of the range, and its first \<open>plen\<close>
  bits are those of the base (both numbers without their last \<open>width - plen\<close> bits are
  equal).
\<close>

definition in_range :: "NetworkRange \<Rightarrow> family \<times> nat \<Rightarrow> bool" where
  "in_range r a =
     (fst a = fam r
      \<and> snd a div 2 ^ (width (fam r) - plen r) = base r div 2 ^ (width (fam r) - plen r))"

text \<open>
  A network as \<open>ParseCIDR\<close> makes them: a number of 4 or 16 bytes, and the CIDR mask of
  that many bytes with some number of leading ones.
\<close>

definition valid_net :: "IPNet \<Rightarrow> bool" where
  "valid_net n =
     ((length (IP n) = IPv4len \<or> length (IP n) = IPv6len)
      \<and> Mask n = CIDRMask (mask_ones (Mask n)) (8 * length (IP n)))"

section \<open>Properties\<close>

lemma CIDRMask_loop_length: "length (CIDRMask_loop n l) = l"
  by (induction l arbitrary: n) auto

lemma Contains_loop_iff: "Contains_loop cidrs ip \<longleftrightarrow> (\<exists>n \<in> set cidrs. IPNet_Contains n ip)"
  by (induction cidrs) auto

lemma ipstore_Contains_Store:
  "ipstore_Contains (Store s (AnyNets cidrs)) ip \<longleftrightarrow> (\<exists>n \<in> set cidrs. IPNet_Contains n ip)"
  by (simp add: ipstore_Contains_def Store_def Load_def Contains_loop_iff)

lemma createContext_TrustedIPs: "createContext c t trusted CTXTrustedIPs = AnyNets trusted"
  by (simp add: createContext_def WithValue_def)

lemma createContext_HTTPTimeout: "createContext c t trusted CTXHTTPTimeout = AnyInt t"
  by (simp add: createContext_def WithValue_def CTXHTTPTimeout_def CTXTrustedIPs_def)

lemma Update_fetch_failure:
  "fetch s c w = Inl err \<Longrightarrow> fst (Update s c w) = s \<and> snd (Update s c w) \<noteq> None"
  by (simp add: Update_def split: any.splits)

lemma Update_failure_keeps_store:
  "snd (Update s c w) = Some err \<Longrightarrow> fst (Update s c w) = s"
  by (auto simp: Update_def split: any.splits sum.splits)

subsection \<open>A failed refresh\<close>

text \<open>
  Claim C2. When the fetch of a refresh fails (the request cannot be made or sent, the
  status is not 200, the body cannot be read or decoded, or a range does not parse),
  \<open>Update\<close> returns an error and the store it leaves is the store it was given, so
  \<open>Contains\<close> answers for every address as before. In the refresh loop such a tick only
  adds a line to the log: the loop goes on with the same gate.
\<close>

theorem refresh_failure_keeps_trusted_set:
  assumes "fetch s c w = Inl err"
  shows "fst (Update s c w) = s
       \<and> snd (Update s c w) \<noteq> None
       \<and> ipstore_Contains (fst (Update s c w)) a = ipstore_Contains s a
       \<and> (s = ips cf \<and> c = createContext c0 HTTPTimeoutDefault (trustedIPs cf) \<longrightarrow>
            refreshLoop_select c0 cf logged (Tick w # evs) =
              refreshLoop_select c0 cf
                (logged @ [Errorf_w ''Failed to update CloudFront IP ranges'' err]) evs)"
proof -
  have keep: "fst (Update s c w) = s" and fails: "snd (Update s c w) \<noteq> None"
    using Update_fetch_failure [OF assms] by simp_all
  have loop: "refreshLoop_select c0 cf logged (Tick w # evs) =
        refreshLoop_select c0 cf
          (logged @ [Errorf_w ''Failed to update CloudFront IP ranges'' err]) evs"
    if "s = ips cf" and "c = createContext c0 HTTPTimeoutDefault (trustedIPs cf)"
  proof -
    have "Update (ips cf) (createContext c0 HTTPTimeoutDefault (trustedIPs cf)) w
            = (ips cf, Some err)"
      using assms that by (simp add: Update_def createContext_TrustedIPs)
    then show ?thesis by simp
  qed
  from keep fails loop show ?thesis by simp
qed

theorem refresh_failure_keeps_trusted_set_witness:
  "fetch (Store (newIPStore CFAPI) (AnyNets [\<lparr>IP = [203, 0, 113, 0], Mask = [255, 255, 255, 0]\<rparr>]))
         (createContext (\<lambda>k. AnyNil) HTTPTimeoutDefault [])
         \<lparr>NewRequest = (\<lambda>u. None), Do = Inr (503, ''503 Service Unavailable''),
          ReadAll = Inr [], Unmarshal = (\<lambda>b. Inl (transport_error ''unexpected end of JSON input''))\<rparr>
     = Inl (Errorf_s ''unexpected response status'' ''503 Service Unavailable'')
   \<and> ipstore_Contains
        (fst (Update (Store (newIPStore CFAPI) (AnyNets [\<lparr>IP = [203, 0, 113, 0], Mask = [255, 255, 255, 0]\<rparr>]))
         (createContext (\<lambda>k. AnyNil) HTTPTimeoutDefault [])
         \<lparr>NewRequest = (\<lambda>u. None), Do = Inr (503, ''503 Service Unavailable''),
          ReadAll = Inr [], Unmarshal = (\<lambda>b. Inl (transport_error ''unexpected end of JSON input''))\<rparr>))
        [0, 0, 0, 0, 0, 0, 0, 0, 0, 0, 0xff, 0xff, 203, 0, 113, 9]"
proof -
  let ?s = "Store (newIPStore CFAPI) (AnyNets [\<lparr>IP = [203, 0, 113, 0], Mask = [255, 255, 255, 0]\<rparr>])"
  let ?c = "createContext (\<lambda>k. AnyNil) HTTPTimeoutDefault []"
  let ?w = "\<lparr>NewRequest = (\<lambda>u. None), Do = Inr (503, ''503 Service Unavailable''),
          ReadAll = Inr [], Unmarshal = (\<lambda>b. Inl (transport_error ''unexpected end of JSON input''))\<rparr>"
  have f: "fetch ?s ?c ?w = Inl (Errorf_s ''unexpected response status'' ''503 Service Unavailable'')"
    by (simp add: fetch_def createContext_HTTPTimeout StatusOK_def)
  have c: "ipstore_Contains ?s [0, 0, 0, 0, 0, 0, 0, 0, 0, 0, 0xff, 0xff, 203, 0, 113, 9]"
    by code_simp
  have "ipstore_Contains (fst (Update ?s ?c ?w)) [0, 0, 0, 0, 0, 0, 0, 0, 0, 0, 0xff, 0xff, 203, 0, 113, 9]
      = ipstore_Contains ?s [0, 0, 0, 0, 0, 0, 0, 0, 0, 0, 0xff, 0xff, 203, 0, 113, 9]"
    by (rule refresh_failure_keeps_trusted_set [OF f, THEN conjunct2, THEN conjunct2, THEN conjunct1])
  with c have "ipstore_Contains (fst (Update ?s ?c ?w)) [0, 0, 0, 0, 0, 0, 0, 0, 0, 0, 0xff, 0xff, 203, 0, 113, 9]"
    by (simp only:)
  with f show ?thesis by (rule conjI)
qed

lemma Update_success_iff:
  "snd (Update s c w) = None \<longleftrightarrow>
     (\<exists>trusted remote. c CTXTrustedIPs = AnyNets trusted \<and> fetch s c w = Inr remote)"
  by (auto simp: Update_def split: any.splits sum.splits)

lemma Update_success:
  "c CTXTrustedIPs = AnyNets trusted \<Longrightarrow> fetch s c w = Inr remote \<Longrightarrow>
     Update s c w = (Store s (AnyNets (trusted @ remote)), None)"
  by (simp add: Update_def)

lemma fetch_success:
  assumes "fetch s c w = Inr remote"
  shows "\<exists>body resp. NewRequest w (cfAPI s) = None \<and> (\<exists>status. Do w = Inr (StatusOK, status))
           \<and> ReadAll w = Inr body \<and> Unmarshal w body = Inr resp
           \<and> parseResponse resp = Inr remote"
  using assms
  by (auto simp: fetch_def split: any.splits option.splits sum.splits prod.splits if_splits)

lemma parseResponse_success:
  assumes "parseResponse resp = Inr remote"
  shows "\<exists>g r. parseCIDRs (GlobalIPList resp) = Inr g
           \<and> parseCIDRs (RegionalEdgeIPList resp) = Inr r \<and> remote = g @ r"
  using assms by (auto simp: parseResponse_def split: sum.splits)

subsection \<open>A successful refresh\<close>

text \<open>
  Claim C4. Whenever \<open>Update\<close> succeeds on a context made by \<open>createContext\<close> with the
  operator's ranges, the response was read and decoded, both of its lists parsed, and the
  store now holds the operator's ranges, then the ranges of the global list, then those
  of the regional-edge list; \<open>Contains\<close> is true exactly for the addresses in one of them.
\<close>

theorem successful_refresh_publishes_operator_then_remote:
  assumes "snd (Update s (createContext c0 t trusted) w) = None"
  shows "\<exists>body resp g r.
           ReadAll w = Inr body \<and> Unmarshal w body = Inr resp
         \<and> parseCIDRs (GlobalIPList resp) = Inr g
         \<and> parseCIDRs (RegionalEdgeIPList resp) = Inr r
         \<and> fst (Update s (createContext c0 t trusted) w) = Store s (AnyNets (trusted @ g @ r))
         \<and> (\<forall>a. ipstore_Contains (fst (Update s (createContext c0 t trusted) w)) a
                \<longleftrightarrow> (\<exists>n \<in> set (trusted @ g @ r). IPNet_Contains n a))"
proof -
  let ?c = "createContext c0 t trusted"
  from assms obtain tr remote where tr: "?c CTXTrustedIPs = AnyNets tr"
    and f: "fetch s ?c w = Inr remote"
    unfolding Update_success_iff by blast
  from tr have "tr = trusted" by (simp add: createContext_TrustedIPs)
  with tr f have u: "Update s ?c w = (Store s (AnyNets (trusted @ remote)), None)"
    by (simp add: Update_success)
  from fetch_success [OF f] obtain body resp where b: "ReadAll w = Inr body"
    and r: "Unmarshal w body = Inr resp" and p: "parseResponse resp = Inr remote"
    by blast
  from parseResponse_success [OF p] obtain g r where g: "parseCIDRs (GlobalIPList resp) = Inr g"
    and rr: "parseCIDRs (RegionalEdgeIPList resp) = Inr r" and gr: "remote = g @ r"
    by blast
  have "fst (Update s ?c w) = Store s (AnyNets (trusted @ g @ r))"
    using u gr by simp
  moreover have "\<forall>a. ipstore_Contains (fst (Update s ?c w)) a
                \<longleftrightarrow> (\<exists>n \<in> set (trusted @ g @ r). IPNet_Contains n a)"
    using u gr by (simp add: ipstore_Contains_Store)
  ultimately show ?thesis using b r g rr by blast
qed

theorem successful_refresh_publishes_operator_then_remote_witness:
  "snd (Update (newIPStore CFAPI)
         (createContext (\<lambda>k. AnyNil) HTTPTimeoutDefault
            [\<lparr>IP = [192, 168, 1, 0], Mask = [255, 255, 255, 0]\<rparr>])
         \<lparr>NewRequest = (\<lambda>u. None), Do = Inr (200, ''200 OK''), ReadAll = Inr ''{}'',
          Unmarshal = (\<lambda>b. Inr \<lparr>GlobalIPList = [''203.0.113.0/24''],
                                RegionalEdgeIPList = [''13.113.196.64/26'']\<rparr>)\<rparr>) = None
   \<and> fst (Update (newIPStore CFAPI)
         (createContext (\<lambda>k. AnyNil) HTTPTimeoutDefault
            [\<lparr>IP = [192, 168, 1, 0], Mask = [255, 255, 255, 0]\<rparr>])
         \<lparr>NewRequest = (\<lambda>u. None), Do = Inr (200, ''200 OK''), ReadAll = Inr ''{}'',
          Unmarshal = (\<lambda>b. Inr \<lparr>GlobalIPList = [''203.0.113.0/24''],
                                RegionalEdgeIPList = [''13.113.196.64/26'']\<rparr>)\<rparr>)
     = Store (newIPStore CFAPI)
         (AnyNets ([\<lparr>IP = [192, 168, 1, 0], Mask = [255, 255, 255, 0]\<rparr>]
                   @ [\<lparr>IP = [203, 0, 113, 0], Mask = [255, 255, 255, 0]\<rparr>]
                   @ [\<lparr>IP = [13, 113, 196, 64], Mask = [255, 255, 255, 192]\<rparr>]))"
proof -
  let ?s = "newIPStore CFAPI"
  let ?tr = "[\<lparr>IP = [192, 168, 1, 0], Mask = [255, 255, 255, 0]\<rparr>]"
  let ?resp = "\<lparr>GlobalIPList = [''203.0.113.0/24''], RegionalEdgeIPList = [''13.113.196.64/26'']\<rparr>"
  let ?w = "\<lparr>NewRequest = (\<lambda>u. None), Do = Inr (200, ''200 OK''), ReadAll = Inr ''{}'',
          Unmarshal = (\<lambda>b. Inr ?resp)\<rparr>"
  have ok: "snd (Update ?s (createContext (\<lambda>k. AnyNil) HTTPTimeoutDefault ?tr) ?w) = None"
    by code_simp
  have g: "parseCIDRs [''203.0.113.0/24''] = Inr [\<lparr>IP = [203, 0, 113, 0], Mask = [255, 255, 255, 0]\<rparr>]"
    by code_simp
  have r: "parseCIDRs [''13.113.196.64/26''] = Inr [\<lparr>IP = [13, 113, 196, 64], Mask = [255, 255, 255, 192]\<rparr>]"
    by code_simp
  from successful_refresh_publishes_operator_then_remote [OF ok]
  obtain body resp g' r' where "Unmarshal ?w body = Inr resp"
    and "parseCIDRs (GlobalIPList resp) = Inr g'"
    and "parseCIDRs (RegionalEdgeIPList resp) = Inr r'"
    and "fst (Update ?s (createContext (\<lambda>k. AnyNil) HTTPTimeoutDefault ?tr) ?w)
           = Store ?s (AnyNets (?tr @ g' @ r'))"
    by blast
  with g r have "fst (Update ?s (createContext (\<lambda>k. AnyNil) HTTPTimeoutDefault ?tr) ?w)
           = Store ?s (AnyNets (?tr @ [\<lparr>IP = [203, 0, 113, 0], Mask = [255, 255, 255, 0]\<rparr>]
                   @ [\<lparr>IP = [13, 113, 196, 64], Mask = [255, 255, 255, 192]\<rparr>]))"
    by auto
  with ok show ?thesis by (rule conjI)
qed

subsection \<open>The store before the first refresh\<close>

lemma New_success:
  assumes "New fmul w c nxt config nm = Inr cf"
  shows "\<exists>interval trusted remote.
           ParseDuration fmul (RefreshInterval config) = Inr interval
         \<and> parseCIDRs (AllowedIPs config) = Inr trusted
         \<and> fetch (newIPStore CFAPI) (createContext c HTTPTimeoutDefault trusted) w = Inr remote
         \<and> cf = \<lparr>next_handler = nxt, name = nm,
                  ips = Store (newIPStore CFAPI) (AnyNets (trusted @ remote)),
                  refreshInterval = interval, trustedIPs = trusted\<rparr>"
proof -
  from assms obtain interval where i: "ParseDuration fmul (RefreshInterval config) = Inr interval"
    by (auto simp: New_def split: sum.splits)
  from assms i obtain trusted where t: "parseCIDRs (AllowedIPs config) = Inr trusted"
    by (auto simp: New_def split: sum.splits)
  let ?c = "createContext c HTTPTimeoutDefault trusted"
  from assms i t have ok: "snd (Update (newIPStore CFAPI) ?c w) = None"
    and cf: "cf = \<lparr>next_handler = nxt, name = nm, ips = fst (Update (newIPStore CFAPI) ?c w),
                  refreshInterval = interval, trustedIPs = trusted\<rparr>"
    by (auto simp: New_def Let_def split: prod.splits option.splits)
  from ok obtain tr remote where tr: "?c CTXTrustedIPs = AnyNets tr"
    and f: "fetch (newIPStore CFAPI) ?c w = Inr remote"
    unfolding Update_success_iff by blast
  from tr have "tr = trusted" by (simp add: createContext_TrustedIPs)
  with tr f have "Update (newIPStore CFAPI) ?c w
      = (Store (newIPStore CFAPI) (AnyNets (trusted @ remote)), None)"
    by (simp add: Update_success)
  with cf i t f show ?thesis by simp
qed

text \<open>
  Claim C3, as the code has it. \<open>newIPStore\<close> takes no ranges: the store it makes holds
  the empty sequence, and \<open>Contains\<close> is false for every address. The operator's ranges
  enter the store with the first successful \<open>Update\<close>, which \<open>New\<close> runs before it returns
  a gate: every gate \<open>New\<close> returns holds the operator's ranges followed by the fetched ones.
\<close>

theorem store_is_empty_until_first_refresh:
  "Load (newIPStore url) = AnyNets []
   \<and> \<not> ipstore_Contains (newIPStore url) a
   \<and> (New fmul w c nxt config nm = Inr cf \<longrightarrow>
        (\<exists>trusted remote.
           parseCIDRs (AllowedIPs config) = Inr trusted
         \<and> fetch (newIPStore CFAPI) (createContext c HTTPTimeoutDefault trusted) w = Inr remote
         \<and> Load (ips cf) = AnyNets (trusted @ remote)))"
proof -
  have "Load (newIPStore url) = AnyNets []"
    by (simp add: newIPStore_def Store_def Load_def)
  moreover have "\<not> ipstore_Contains (newIPStore url) a"
    by (simp add: newIPStore_def Store_def Load_def ipstore_Contains_def)
  moreover have "\<exists>trusted remote.
           parseCIDRs (AllowedIPs config) = Inr trusted
         \<and> fetch (newIPStore CFAPI) (createContext c HTTPTimeoutDefault trusted) w = Inr remote
         \<and> Load (ips cf) = AnyNets (trusted @ remote)"
    if "New fmul w c nxt config nm = Inr cf"
    using New_success [OF that] by (auto simp: Store_def Load_def)
  ultimately show ?thesis by blast
qed

theorem store_is_empty_until_first_refresh_witness:
  "(\<exists>cf. New (\<lambda>f u k. 0)
        \<lparr>NewRequest = (\<lambda>u. None), Do = Inr (200, ''200 OK''), ReadAll = Inr ''{}'',
         Unmarshal = (\<lambda>b. Inr \<lparr>GlobalIPList = [''203.0.113.0/24''], RegionalEdgeIPList = []\<rparr>)\<rparr>
        (\<lambda>k. AnyNil) () \<lparr>RefreshInterval = ''24h'', AllowedIPs = [''192.168.1.0/24'']\<rparr> ''gate''
      = Inr cf
    \<and> Load (ips cf) = AnyNets ([\<lparr>IP = [192, 168, 1, 0], Mask = [255, 255, 255, 0]\<rparr>]
                               @ [\<lparr>IP = [203, 0, 113, 0], Mask = [255, 255, 255, 0]\<rparr>]))
   \<and> \<not> ipstore_Contains (newIPStore CFAPI) [0, 0, 0, 0, 0, 0, 0, 0, 0, 0, 0xff, 0xff, 192, 168, 1, 5]"
proof -
  let ?w = "\<lparr>NewRequest = (\<lambda>u. None), Do = Inr (200, ''200 OK''), ReadAll = Inr ''{}'',
         Unmarshal = (\<lambda>b. Inr \<lparr>GlobalIPList = [''203.0.113.0/24''], RegionalEdgeIPList = []\<rparr>)\<rparr>"
  let ?cfg = "\<lparr>RefreshInterval = ''24h'', AllowedIPs = [''192.168.1.0/24'']\<rparr>"
  let ?cf = "\<lparr>next_handler = (), name = ''gate'',
             ips = \<lparr>cfAPI = CFAPI, held = AnyNets [\<lparr>IP = [192, 168, 1, 0], Mask = [255, 255, 255, 0]\<rparr>,
                                         \<lparr>IP = [203, 0, 113, 0], Mask = [255, 255, 255, 0]\<rparr>]\<rparr>,
             refreshInterval = 86400000000000,
             trustedIPs = [\<lparr>IP = [192, 168, 1, 0], Mask = [255, 255, 255, 0]\<rparr>]\<rparr>"
  have n: "New (\<lambda>f u k. 0) ?w (\<lambda>k. AnyNil) () ?cfg ''gate'' = Inr ?cf"
    by code_simp
  have t: "parseCIDRs (AllowedIPs ?cfg) = Inr [\<lparr>IP = [192, 168, 1, 0], Mask = [255, 255, 255, 0]\<rparr>]"
    by code_simp
  note th = store_is_empty_until_first_refresh
    [of CFAPI "[0, 0, 0, 0, 0, 0, 0, 0, 0, 0, 0xff, 0xff, 192, 168, 1, 5]"
        "\<lambda>f u k. 0" ?w "\<lambda>k. AnyNil" "()" ?cfg "''gate''" ?cf]
  from th have c: "\<not> ipstore_Contains (newIPStore CFAPI) [0, 0, 0, 0, 0, 0, 0, 0, 0, 0, 0xff, 0xff, 192, 168, 1, 5]"
    by blast
  have "Load (ips ?cf) = AnyNets ([\<lparr>IP = [192, 168, 1, 0], Mask = [255, 255, 255, 0]\<rparr>]
                               @ [\<lparr>IP = [203, 0, 113, 0], Mask = [255, 255, 255, 0]\<rparr>])"
    by (simp add: Load_def)
  with n c show ?thesis by blast
qed

text \<open>
  The claim as the specification words it fails: the operator's range \<open>192.168.1.0/24\<close>
  contains \<open>192.168.1.5\<close>, and the store just made does not.
\<close>

theorem operator_range_not_trusted_at_initialization:
  "parseCIDRs [''192.168.1.0/24''] = Inr [\<lparr>IP = [192, 168, 1, 0], Mask = [255, 255, 255, 0]\<rparr>]
   \<and> ParseIP ''192.168.1.5'' = Some [0, 0, 0, 0, 0, 0, 0, 0, 0, 0, 0xff, 0xff, 192, 168, 1, 5]
   \<and> IPNet_Contains \<lparr>IP = [192, 168, 1, 0], Mask = [255, 255, 255, 0]\<rparr>
        [0, 0, 0, 0, 0, 0, 0, 0, 0, 0, 0xff, 0xff, 192, 168, 1, 5]
   \<and> Load (newIPStore CFAPI) = AnyNets []
   \<and> \<not> ipstore_Contains (newIPStore CFAPI) [0, 0, 0, 0, 0, 0, 0, 0, 0, 0, 0xff, 0xff, 192, 168, 1, 5]"
  by code_simp

subsection \<open>When \<open>Update\<close> fails\<close>

text \<open>
  Claim C7, as the code has it. \<open>Update\<close> does the fetch itself, so it can fail. It
  succeeds exactly when the context holds the operator's ranges and the fetch returns
  ranges; then it returns no error and the store holds the operator's ranges followed by
  the fetched ones: after the fetch nothing in it can fail. When the fetch fails it
  returns the error of the fetch, when the context holds no ranges it returns its own
  error, and in both cases the store is the one it was given, so \<open>Contains\<close> answers as
  before.
\<close>

theorem Update_succeeds_iff_fetch_succeeds:
  "(snd (Update s c w) = None) =
       (\<exists>tr rm. c CTXTrustedIPs = AnyNets tr \<and> fetch s c w = Inr rm)
   \<and> (c CTXTrustedIPs = AnyNets trusted \<and> fetch s c w = Inr remote \<longrightarrow>
        Update s c w = (Store s (AnyNets (trusted @ remote)), None))
   \<and> (c CTXTrustedIPs = AnyNets trusted \<and> fetch s c w = Inl err \<longrightarrow>
        Update s c w = (s, Some err))
   \<and> ((\<forall>tr. c CTXTrustedIPs \<noteq> AnyNets tr) \<longrightarrow>
        Update s c w = (s, Some (errors_New ''invalid trusted IPs value'')))
   \<and> (snd (Update s c w) \<noteq> None \<longrightarrow>
        fst (Update s c w) = s
        \<and> (\<forall>a. ipstore_Contains (fst (Update s c w)) a = ipstore_Contains s a))"
proof (intro conjI impI)
  show "(snd (Update s c w) = None) =
       (\<exists>tr rm. c CTXTrustedIPs = AnyNets tr \<and> fetch s c w = Inr rm)"
    by (rule Update_success_iff)
next
  assume "c CTXTrustedIPs = AnyNets trusted \<and> fetch s c w = Inr remote"
  then show "Update s c w = (Store s (AnyNets (trusted @ remote)), None)"
    by (simp add: Update_success)
next
  assume "c CTXTrustedIPs = AnyNets trusted \<and> fetch s c w = Inl err"
  then show "Update s c w = (s, Some err)"
    by (simp add: Update_def)
next
  assume "\<forall>tr. c CTXTrustedIPs \<noteq> AnyNets tr"
  then show "Update s c w = (s, Some (errors_New ''invalid trusted IPs value''))"
    by (cases "c CTXTrustedIPs") (simp_all add: Update_def)
next
  assume f: "snd (Update s c w) \<noteq> None"
  then obtain e where "snd (Update s c w) = Some e" by blast
  then show "fst (Update s c w) = s" by (rule Update_failure_keeps_store)
  then show "\<forall>a. ipstore_Contains (fst (Update s c w)) a = ipstore_Contains s a"
    by simp
qed

theorem Update_succeeds_iff_fetch_succeeds_witness:
  "Update \<lparr>cfAPI = CFAPI, held = AnyNets [\<lparr>IP = [10, 0, 0, 0], Mask = [255, 0, 0, 0]\<rparr>]\<rparr>
      (createContext (\<lambda>k. AnyNil) HTTPTimeoutDefault
         [\<lparr>IP = [192, 168, 1, 0], Mask = [255, 255, 255, 0]\<rparr>])
      \<lparr>NewRequest = (\<lambda>u. None), Do = Inr (200, ''200 OK''), ReadAll = Inr ''{}'',
       Unmarshal = (\<lambda>b. Inr \<lparr>GlobalIPList = [''203.0.113.0/24''], RegionalEdgeIPList = []\<rparr>)\<rparr>
     = (\<lparr>cfAPI = CFAPI, held = AnyNets [\<lparr>IP = [192, 168, 1, 0], Mask = [255, 255, 255, 0]\<rparr>,
                                        \<lparr>IP = [203, 0, 113, 0], Mask = [255, 255, 255, 0]\<rparr>]\<rparr>,
        None)
   \<and> Update \<lparr>cfAPI = CFAPI, held = AnyNets [\<lparr>IP = [10, 0, 0, 0], Mask = [255, 0, 0, 0]\<rparr>]\<rparr>
      (createContext (\<lambda>k. AnyNil) HTTPTimeoutDefault
         [\<lparr>IP = [192, 168, 1, 0], Mask = [255, 255, 255, 0]\<rparr>])
      \<lparr>NewRequest = (\<lambda>u. None), Do = Inr (503, ''503 Service Unavailable''), ReadAll = Inr [],
       Unmarshal = (\<lambda>b. Inl (transport_error ''unexpected end of JSON input''))\<rparr>
     = (\<lparr>cfAPI = CFAPI, held = AnyNets [\<lparr>IP = [10, 0, 0, 0], Mask = [255, 0, 0, 0]\<rparr>]\<rparr>,
        Some (Errorf_s ''unexpected response status'' ''503 Service Unavailable''))
   \<and> Update \<lparr>cfAPI = CFAPI, held = AnyNets [\<lparr>IP = [10, 0, 0, 0], Mask = [255, 0, 0, 0]\<rparr>]\<rparr>
      (\<lambda>k. AnyNil)
      \<lparr>NewRequest = (\<lambda>u. None), Do = Inr (200, ''200 OK''), ReadAll = Inr ''{}'',
       Unmarshal = (\<lambda>b. Inr \<lparr>GlobalIPList = [''203.0.113.0/24''], RegionalEdgeIPList = []\<rparr>)\<rparr>
     = (\<lparr>cfAPI = CFAPI, held = AnyNets [\<lparr>IP = [10, 0, 0, 0], Mask = [255, 0, 0, 0]\<rparr>]\<rparr>,
        Some (errors_New ''invalid trusted IPs value''))"
proof -
  let ?s = "\<lparr>cfAPI = CFAPI, held = AnyNets [\<lparr>IP = [10, 0, 0, 0], Mask = [255, 0, 0, 0]\<rparr>]\<rparr>"
  let ?tr = "[\<lparr>IP = [192, 168, 1, 0], Mask = [255, 255, 255, 0]\<rparr>]"
  let ?c = "createContext (\<lambda>k. AnyNil) HTTPTimeoutDefault ?tr"
  let ?ok = "\<lparr>NewRequest = (\<lambda>u. None), Do = Inr (200, ''200 OK''), ReadAll = Inr ''{}'',
       Unmarshal = (\<lambda>b. Inr \<lparr>GlobalIPList = [''203.0.113.0/24''], RegionalEdgeIPList = []\<rparr>)\<rparr>"
  let ?ko = "\<lparr>NewRequest = (\<lambda>u. None), Do = Inr (503, ''503 Service Unavailable''), ReadAll = Inr [],
       Unmarshal = (\<lambda>b. Inl (transport_error ''unexpected end of JSON input''))\<rparr>"
  have t: "?c CTXTrustedIPs = AnyNets ?tr"
    by (rule createContext_TrustedIPs)
  have f1: "fetch ?s ?c ?ok = Inr [\<lparr>IP = [203, 0, 113, 0], Mask = [255, 255, 255, 0]\<rparr>]"
    by code_simp
  have f2: "fetch ?s ?c ?ko
      = Inl (Errorf_s ''unexpected response status'' ''503 Service Unavailable'')"
    by code_simp
  have n: "\<forall>tr. (\<lambda>k. AnyNil) CTXTrustedIPs \<noteq> AnyNets tr"
    by simp
  from Update_succeeds_iff_fetch_succeeds
    [of ?s ?c ?ok ?tr "[\<lparr>IP = [203, 0, 113, 0], Mask = [255, 255, 255, 0]\<rparr>]"] t f1
  have "Update ?s ?c ?ok
      = (Store ?s (AnyNets (?tr @ [\<lparr>IP = [203, 0, 113, 0], Mask = [255, 255, 255, 0]\<rparr>])), None)"
    by blast
  then have a: "Update ?s ?c ?ok
      = (\<lparr>cfAPI = CFAPI, held = AnyNets [\<lparr>IP = [192, 168, 1, 0], Mask = [255, 255, 255, 0]\<rparr>,
                                        \<lparr>IP = [203, 0, 113, 0], Mask = [255, 255, 255, 0]\<rparr>]\<rparr>, None)"
    by (simp add: Store_def)
  from Update_succeeds_iff_fetch_succeeds
    [of ?s ?c ?ko ?tr _ "Errorf_s ''unexpected response status'' ''503 Service Unavailable''"] t f2
  have b: "Update ?s ?c ?ko
      = (?s, Some (Errorf_s ''unexpected response status'' ''503 Service Unavailable''))"
    by blast
  from Update_succeeds_iff_fetch_succeeds [of ?s "\<lambda>k. AnyNil" ?ok] n
  have c: "Update ?s (\<lambda>k. AnyNil) ?ok = (?s, Some (errors_New ''invalid trusted IPs value''))"
    by blast
  from a b c show ?thesis by (intro conjI)
qed

text \<open>
  The claim as the specification words it fails: on the same store and the same
  context, \<open>Update\<close> fails when the server answers 503 and succeeds when it answers 200
  with a list, so its result depends on the network.
\<close>

theorem Update_fails_when_the_server_answers_503:
  "Update (newIPStore CFAPI) (createContext (\<lambda>k. AnyNil) HTTPTimeoutDefault [])
      \<lparr>NewRequest = (\<lambda>u. None), Do = Inr (503, ''503 Service Unavailable''), ReadAll = Inr [],
       Unmarshal = (\<lambda>b. Inl (transport_error ''unexpected end of JSON input''))\<rparr>
     = (newIPStore CFAPI,
        Some (Errorf_s ''unexpected response status'' ''503 Service Unavailable''))
   \<and> Update (newIPStore CFAPI) (createContext (\<lambda>k. AnyNil) HTTPTimeoutDefault [])
      \<lparr>NewRequest = (\<lambda>u. None), Do = Inr (200, ''200 OK''), ReadAll = Inr ''{}'',
       Unmarshal = (\<lambda>b. Inr \<lparr>GlobalIPList = [''203.0.113.0/24''], RegionalEdgeIPList = []\<rparr>)\<rparr>
     = (Store (newIPStore CFAPI) (AnyNets [\<lparr>IP = [203, 0, 113, 0], Mask = [255, 255, 255, 0]\<rparr>]),
        None)"
  by code_simp

subsection \<open>The decision of the gate\<close>

lemma strings_Split_takeWhile:
  "\<exists>rest. strings_Split s sep = takeWhile (\<lambda>c. c \<noteq> sep) s # rest"
  by (induction s) (auto split: list.splits)

lemma ServeHTTP_eq:
  "ServeHTTP cf req =
     (cf, case ParseIP (takeWhile (\<lambda>c. c \<noteq> CHR '':'') (RemoteAddr req)) of
            None \<Rightarrow> Forbidden
          | Some a \<Rightarrow> if ipstore_Contains (ips cf) a then Delegated req else Forbidden)"
proof -
  obtain rest where "strings_Split (RemoteAddr req) (CHR '':'')
      = takeWhile (\<lambda>c. c \<noteq> CHR '':'') (RemoteAddr req) # rest"
    using strings_Split_takeWhile by blast
  then show ?thesis
    by (simp add: ServeHTTP_def split: option.splits)
qed

lemma takeWhile_up_to_sep: "c \<notin> set h \<Longrightarrow> takeWhile (\<lambda>x. x \<noteq> c) (h @ c # p) = h"
  by (induction h) auto

lemma takeWhile_no_sep: "c \<notin> set h \<Longrightarrow> takeWhile (\<lambda>x. x \<noteq> c) h = h"
  by (induction h) auto

text \<open>
  For an origin whose host has no colon (an IPv4 address or a name), alone or followed
  by \<open>:\<close> and a port, the text before the first colon is the host, and the gate decides
  on it: \<open>Forbidden\<close> when the host does not parse or the store does not contain it, the
  next handler otherwise. The gate is left as it was.
\<close>

lemma ServeHTTP_host_without_colon:
  assumes "CHR '':'' \<notin> set host" and "origin = host \<or> origin = host @ '':'' @ port"
  shows "ServeHTTP cf \<lparr>RemoteAddr = origin\<rparr> =
     (cf, case ParseIP host of
            None \<Rightarrow> Forbidden
          | Some a \<Rightarrow> if ipstore_Contains (ips cf) a then Delegated \<lparr>RemoteAddr = origin\<rparr>
                      else Forbidden)"
proof -
  have "takeWhile (\<lambda>c. c \<noteq> CHR '':'') origin = host"
    using assms by (auto simp: takeWhile_up_to_sep takeWhile_no_sep)
  then show ?thesis by (simp add: ServeHTTP_eq)
qed

text \<open>
  Claim C5 at the origin \<open>[::1]:80\<close>. The gate takes the text before the first colon of
  the remote address for the host. For this origin that text is \<open>[\<close>, while the host is
  \<open>::1\<close>: the host parses, the gate made by \<open>New\<close> with the operator's range \<open>::1/128\<close>
  holds a range that contains it, and still the gate answers \<open>Forbidden\<close>, to this origin
  and to the bare origin \<open>::1\<close>.
\<close>

theorem ServeHTTP_rejects_trusted_IPv6_origin:
  "New fmul
     \<lparr>NewRequest = (\<lambda>u. None), Do = Inr (200, ''200 OK''), ReadAll = Inr ''{}'',
      Unmarshal = (\<lambda>b. Inr \<lparr>GlobalIPList = [''203.0.113.0/24''], RegionalEdgeIPList = []\<rparr>)\<rparr>
     (\<lambda>k. AnyNil) () \<lparr>RefreshInterval = ''24h'', AllowedIPs = [''::1/128'']\<rparr> ''gate''
   = Inr \<lparr>next_handler = (), name = ''gate'',
          ips = \<lparr>cfAPI = CFAPI,
                 held = AnyNets
                   [\<lparr>IP = [0, 0, 0, 0, 0, 0, 0, 0, 0, 0, 0, 0, 0, 0, 0, 1],
                     Mask = [255, 255, 255, 255, 255, 255, 255, 255,
                             255, 255, 255, 255, 255, 255, 255, 255]\<rparr>,
                    \<lparr>IP = [203, 0, 113, 0], Mask = [255, 255, 255, 0]\<rparr>]\<rparr>,
          refreshInterval = 86400000000000,
          trustedIPs = [\<lparr>IP = [0, 0, 0, 0, 0, 0, 0, 0, 0, 0, 0, 0, 0, 0, 0, 1],
                         Mask = [255, 255, 255, 255, 255, 255, 255, 255,
                                 255, 255, 255, 255, 255, 255, 255, 255]\<rparr>]\<rparr>
   \<and> ParseIP ''::1'' = Some [0, 0, 0, 0, 0, 0, 0, 0, 0, 0, 0, 0, 0, 0, 0, 1]
   \<and> ipstore_Contains
        \<lparr>cfAPI = CFAPI,
         held = AnyNets
           [\<lparr>IP = [0, 0, 0, 0, 0, 0, 0, 0, 0, 0, 0, 0, 0, 0, 0, 1],
             Mask = [255, 255, 255, 255, 255, 255, 255, 255,
                     255, 255, 255, 255, 255, 255, 255, 255]\<rparr>,
            \<lparr>IP = [203, 0, 113, 0], Mask = [255, 255, 255, 0]\<rparr>]\<rparr>
        [0, 0, 0, 0, 0, 0, 0, 0, 0, 0, 0, 0, 0, 0, 0, 1]
   \<and> strings_Split ''[::1]:80'' (CHR '':'') = [''['', [], ''1]'', ''80'']
   \<and> ParseIP ''['' = None
   \<and> snd (ServeHTTP
        \<lparr>next_handler = (), name = ''gate'',
          ips = \<lparr>cfAPI = CFAPI,
                 held = AnyNets
                   [\<lparr>IP = [0, 0, 0, 0, 0, 0, 0, 0, 0, 0, 0, 0, 0, 0, 0, 1],
                     Mask = [255, 255, 255, 255, 255, 255, 255, 255,
                             255, 255, 255, 255, 255, 255, 255, 255]\<rparr>,
                    \<lparr>IP = [203, 0, 113, 0], Mask = [255, 255, 255, 0]\<rparr>]\<rparr>,
          refreshInterval = 86400000000000,
          trustedIPs = [\<lparr>IP = [0, 0, 0, 0, 0, 0, 0, 0, 0, 0, 0, 0, 0, 0, 0, 1],
                         Mask = [255, 255, 255, 255, 255, 255, 255, 255,
                                 255, 255, 255, 255, 255, 255, 255, 255]\<rparr>]\<rparr>
        \<lparr>RemoteAddr = ''[::1]:80''\<rparr>) = Forbidden
   \<and> snd (ServeHTTP
        \<lparr>next_handler = (), name = ''gate'',
          ips = \<lparr>cfAPI = CFAPI,
                 held = AnyNets
                   [\<lparr>IP = [0, 0, 0, 0, 0, 0, 0, 0, 0, 0, 0, 0, 0, 0, 0, 1],
                     Mask = [255, 255, 255, 255, 255, 255, 255, 255,
                             255, 255, 255, 255, 255, 255, 255, 255]\<rparr>,
                    \<lparr>IP = [203, 0, 113, 0], Mask = [255, 255, 255, 0]\<rparr>]\<rparr>,
          refreshInterval = 86400000000000,
          trustedIPs = [\<lparr>IP = [0, 0, 0, 0, 0, 0, 0, 0, 0, 0, 0, 0, 0, 0, 0, 1],
                         Mask = [255, 255, 255, 255, 255, 255, 255, 255,
                                 255, 255, 255, 255, 255, 255, 255, 255]\<rparr>]\<rparr>
        \<lparr>RemoteAddr = ''::1''\<rparr>) = Forbidden
   \<and> snd (ServeHTTP
        \<lparr>next_handler = (), name = ''gate'',
          ips = \<lparr>cfAPI = CFAPI,
                 held = AnyNets
                   [\<lparr>IP = [0, 0, 0, 0, 0, 0, 0, 0, 0, 0, 0, 0, 0, 0, 0, 1],
                     Mask = [255, 255, 255, 255, 255, 255, 255, 255,
                             255, 255, 255, 255, 255, 255, 255, 255]\<rparr>,
                    \<lparr>IP = [203, 0, 113, 0], Mask = [255, 255, 255, 0]\<rparr>]\<rparr>,
          refreshInterval = 86400000000000,
          trustedIPs = [\<lparr>IP = [0, 0, 0, 0, 0, 0, 0, 0, 0, 0, 0, 0, 0, 0, 0, 1],
                         Mask = [255, 255, 255, 255, 255, 255, 255, 255,
                                 255, 255, 255, 255, 255, 255, 255, 255]\<rparr>]\<rparr>
        \<lparr>RemoteAddr = ''203.0.113.9:54321''\<rparr>) = Delegated \<lparr>RemoteAddr = ''203.0.113.9:54321''\<rparr>"
  by code_simp

subsection \<open>Origins that are IPv6 addresses\<close>

declare parseIPv4Fields_loop.simps [simp del]

lemma parseIPv4Fields_loop_bad_char:
  assumes "i \<le> j" and "j < length s" and "\<not> is_digit (s ! j)" and "s ! j \<noteq> CHR ''.''"
  shows "\<exists>e. parseIPv4Fields_loop s i val pos digLen flds = Inl e"
  using assms
proof (induction s i val pos digLen flds rule: parseIPv4Fields_loop.induct)
  case (1 s i val pos digLen flds)
  show ?case
  proof (cases "i = j")
    case True
    with 1 show ?thesis
      by (subst parseIPv4Fields_loop.simps) simp
  next
    case False
    with 1 have le: "Suc i \<le> j" and lt: "i < length s" by simp_all
    note bad = "1.prems"(2-4)
    show ?thesis
    proof (cases "is_digit (s ! i)")
      case digit: True
      show ?thesis
      proof (cases "digLen = 1 \<and> val = 0")
        case True
        with lt digit show ?thesis
          by (subst parseIPv4Fields_loop.simps) simp
      next
        case nz: False
        show ?thesis
        proof (cases "255 < val * 10 + byteval (s ! i) - byteval (CHR ''0'')")
          case True
          with lt digit nz show ?thesis
            by (subst parseIPv4Fields_loop.simps) (simp add: Let_def)
        next
          case small: False
          from "1.IH"(1) [OF lt digit nz refl small le bad]
          obtain e where "parseIPv4Fields_loop s (Suc i)
              (val * 10 + byteval (s ! i) - byteval (CHR ''0'')) pos (Suc digLen) flds = Inl e"
            by blast
          with lt digit nz small show ?thesis
            by (subst parseIPv4Fields_loop.simps) (simp add: Let_def)
        qed
      qed
    next
      case nodigit: False
      show ?thesis
      proof (cases "s ! i = CHR ''.''")
        case dot: True
        show ?thesis
        proof (cases "i = 0 \<or> i = length s - 1 \<or> s ! (i - 1) = CHR ''.''")
          case True
          with lt nodigit dot show ?thesis
            by (subst parseIPv4Fields_loop.simps) simp
        next
          case inner: False
          show ?thesis
          proof (cases "pos = 3")
            case True
            with lt nodigit dot inner show ?thesis
              by (subst parseIPv4Fields_loop.simps) simp
          next
            case room: False
            from "1.IH"(2) [OF lt nodigit dot inner room le bad]
            obtain e where "parseIPv4Fields_loop s (Suc i) 0 (Suc pos) 0
                (flds[pos := of_nat val]) = Inl e"
              by blast
            with lt nodigit dot inner room show ?thesis
              by (subst parseIPv4Fields_loop.simps) simp
          qed
        qed
      next
        case False
        with lt nodigit show ?thesis
          by (subst parseIPv4Fields_loop.simps) simp
      qed
    qed
  qed
qed

lemma parseIPv4_bad_char:
  assumes "j < length s" and "\<not> is_digit (s ! j)" and "s ! j \<noteq> CHR ''.''"
  shows "\<exists>e. parseIPv4 s = Inl e"
proof -
  from parseIPv4Fields_loop_bad_char [of 0 j s 0 0 0 "[0, 0, 0, 0]"] assms
  obtain e where "parseIPv4Fields_loop s 0 0 0 0 [0, 0, 0, 0] = Inl e" by auto
  then show ?thesis by (simp add: parseIPv4_def parseIPv4Fields_def)
qed

lemma parseIPv4_bad_member:
  assumes "c \<in> set s" and "\<not> is_digit c" and "c \<noteq> CHR ''.''"
  shows "\<exists>e. parseIPv4 s = Inl e"
proof -
  from assms(1) obtain j where "j < length s" and "s ! j = c"
    by (auto simp: in_set_conv_nth)
  with assms(2,3) show ?thesis by (auto intro: parseIPv4_bad_char)
qed

lemma not_digit_colon: "\<not> is_digit (CHR '':'')"
  by (simp add: is_digit_def byteval_def)

lemma not_digit_bracket: "\<not> is_digit (CHR ''['')"
  by (simp add: is_digit_def byteval_def)

lemma ParseAddr_scan_plain:
  "CHR ''.'' \<notin> set t \<Longrightarrow> CHR '':'' \<notin> set t \<Longrightarrow> CHR ''%'' \<notin> set t \<Longrightarrow>
     ParseAddr_scan s t = Inl (parseAddrError s ''unable to parse IP'')"
  by (induction t) auto

lemma ParseAddr_scan_no_colon:
  "CHR '':'' \<notin> set t \<Longrightarrow> ParseAddr_scan s t = Inr a \<Longrightarrow> parseIPv4 s = Inr a"
  by (induction t) (auto split: if_splits)

lemma ParseAddr_scan_colon_first:
  "ParseAddr_scan s t = Inr a \<Longrightarrow> CHR '':'' \<in> set t \<Longrightarrow> \<exists>e. parseIPv4 s = Inl e \<Longrightarrow>
     CHR ''.'' \<notin> set (takeWhile (\<lambda>c. c \<noteq> CHR '':'') t)
     \<and> CHR ''%'' \<notin> set (takeWhile (\<lambda>c. c \<noteq> CHR '':'') t)"
  by (induction t) (auto split: if_splits)

lemma colon_notin_takeWhile: "CHR '':'' \<notin> set (takeWhile (\<lambda>c. c \<noteq> CHR '':'') t)"
  by (auto dest: set_takeWhileD)

lemma ParseIP_host_of_IPv6:
  assumes "ParseAddr a = Inr ad" and "CHR '':'' \<in> set a"
  shows "ParseIP (takeWhile (\<lambda>c. c \<noteq> CHR '':'') a) = None"
proof -
  let ?h = "takeWhile (\<lambda>c. c \<noteq> CHR '':'') a"
  have "\<exists>e. parseIPv4 a = Inl e"
    using assms(2) not_digit_colon by (auto intro: parseIPv4_bad_member)
  with assms have "CHR ''.'' \<notin> set ?h \<and> CHR ''%'' \<notin> set ?h"
    unfolding ParseAddr_def by (rule ParseAddr_scan_colon_first)
  then have "ParseAddr ?h = Inl (parseAddrError ?h ''unable to parse IP'')"
    unfolding ParseAddr_def using colon_notin_takeWhile by (intro ParseAddr_scan_plain) auto
  then show ?thesis by (simp add: ParseIP_def)
qed

lemma ParseIP_bracket:
  assumes "CHR '':'' \<notin> set h"
  shows "ParseIP (CHR ''['' # h) = None"
proof (cases "ParseAddr (CHR ''['' # h)")
  case (Inl e)
  then show ?thesis by (simp add: ParseIP_def)
next
  case (Inr ad)
  with assms have "parseIPv4 (CHR ''['' # h) = Inr ad"
    unfolding ParseAddr_def by (intro ParseAddr_scan_no_colon) auto
  moreover have "\<exists>e. parseIPv4 (CHR ''['' # h) = Inl e"
    using not_digit_bracket by (intro parseIPv4_bad_char [of 0]) auto
  ultimately show ?thesis by auto
qed

text \<open>
  Claim C10. Let \<open>a\<close> be the text of an IPv6 address: \<open>netip.ParseAddr\<close> accepts it and it
  has a colon. A request whose remote address is \<open>a\<close> itself, or \<open>a\<close> in brackets followed
  by a port, is answered \<open>Forbidden\<close> by every gate, whatever its store holds: the text
  before the first colon is not an address.
\<close>

theorem IPv6_origin_is_always_rejected:
  assumes "ParseAddr a = Inr ad" and "CHR '':'' \<in> set a"
    and "origin = a \<or> origin = ''['' @ a @ '']:'' @ port"
  shows "ParseIP (takeWhile (\<lambda>c. c \<noteq> CHR '':'') origin) = None
       \<and> ServeHTTP cf \<lparr>RemoteAddr = origin\<rparr> = (cf, Forbidden)"
proof -
  have "ParseIP (takeWhile (\<lambda>c. c \<noteq> CHR '':'') origin) = None"
  proof (cases "origin = a")
    case True
    with assms(1,2) show ?thesis by (simp add: ParseIP_host_of_IPv6)
  next
    case False
    with assms(3) have "origin = CHR ''['' # a @ '']:'' @ port" by simp
    then have "takeWhile (\<lambda>c. c \<noteq> CHR '':'') origin
        = CHR ''['' # takeWhile (\<lambda>c. c \<noteq> CHR '':'') (a @ '']:'' @ port)"
      by simp
    then show ?thesis
      using ParseIP_bracket [OF colon_notin_takeWhile] by simp
  qed
  then show ?thesis by (simp add: ServeHTTP_eq)
qed

theorem IPv6_origin_is_always_rejected_witness:
  "ParseAddr ''::1'' = Inr (IPv6Addr [0, 0, 0, 0, 0, 0, 0, 0, 0, 0, 0, 0, 0, 0, 0, 1] [])
   \<and> ipstore_Contains \<lparr>cfAPI = CFAPI, held = AnyNets [\<lparr>IP = [0, 0, 0, 0, 0, 0, 0, 0, 0, 0, 0, 0, 0, 0, 0, 1],
         Mask = [255, 255, 255, 255, 255, 255, 255, 255, 255, 255, 255, 255, 255, 255, 255, 255]\<rparr>]\<rparr>
        [0, 0, 0, 0, 0, 0, 0, 0, 0, 0, 0, 0, 0, 0, 0, 1]
   \<and> snd (ServeHTTP \<lparr>next_handler = (), name = ''gate'',
             ips = \<lparr>cfAPI = CFAPI, held = AnyNets [\<lparr>IP = [0, 0, 0, 0, 0, 0, 0, 0, 0, 0, 0, 0, 0, 0, 0, 1],
               Mask = [255, 255, 255, 255, 255, 255, 255, 255, 255, 255, 255, 255, 255, 255, 255, 255]\<rparr>]\<rparr>,
             refreshInterval = 86400000000000, trustedIPs = []\<rparr>
          \<lparr>RemoteAddr = ''[::1]:80''\<rparr>) = Forbidden
   \<and> snd (ServeHTTP \<lparr>next_handler = (), name = ''gate'',
             ips = \<lparr>cfAPI = CFAPI, held = AnyNets [\<lparr>IP = [0, 0, 0, 0, 0, 0, 0, 0, 0, 0, 0, 0, 0, 0, 0, 1],
               Mask = [255, 255, 255, 255, 255, 255, 255, 255, 255, 255, 255, 255, 255, 255, 255, 255]\<rparr>]\<rparr>,
             refreshInterval = 86400000000000, trustedIPs = []\<rparr>
          \<lparr>RemoteAddr = ''::1''\<rparr>) = Forbidden"
proof -
  let ?cf = "\<lparr>next_handler = (), name = ''gate'',
             ips = \<lparr>cfAPI = CFAPI, held = AnyNets [\<lparr>IP = [0, 0, 0, 0, 0, 0, 0, 0, 0, 0, 0, 0, 0, 0, 0, 1],
               Mask = [255, 255, 255, 255, 255, 255, 255, 255, 255, 255, 255, 255, 255, 255, 255, 255]\<rparr>]\<rparr>,
             refreshInterval = 86400000000000, trustedIPs = []\<rparr>"
  have p: "ParseAddr ''::1'' = Inr (IPv6Addr [0, 0, 0, 0, 0, 0, 0, 0, 0, 0, 0, 0, 0, 0, 0, 1] [])"
    by code_simp
  have m: "CHR '':'' \<in> set ''::1''" by simp
  have c: "ipstore_Contains \<lparr>cfAPI = CFAPI, held = AnyNets [\<lparr>IP = [0, 0, 0, 0, 0, 0, 0, 0, 0, 0, 0, 0, 0, 0, 0, 1],
         Mask = [255, 255, 255, 255, 255, 255, 255, 255, 255, 255, 255, 255, 255, 255, 255, 255]\<rparr>]\<rparr>
        [0, 0, 0, 0, 0, 0, 0, 0, 0, 0, 0, 0, 0, 0, 0, 1]"
    by code_simp
  have "snd (ServeHTTP ?cf \<lparr>RemoteAddr = ''[::1]:80''\<rparr>) = Forbidden"
    using IPv6_origin_is_always_rejected [OF p m, of "''[::1]:80''" "''80''" ?cf] by simp
  moreover have "snd (ServeHTTP ?cf \<lparr>RemoteAddr = ''::1''\<rparr>) = Forbidden"
    using IPv6_origin_is_always_rejected [OF p m, of "''::1''" "''80''" ?cf] by simp
  ultimately show ?thesis using p c by blast
qed

subsection \<open>The refresh interval\<close>

text \<open>
  Claim C8 at the interval \<open>0s\<close>. \<open>New\<close> checks only that \<open>time.ParseDuration\<close> returns no
  error: with the interval \<open>0s\<close> (and a fetch that succeeds) it returns a gate whose
  interval is zero, and the refresh loop started on that gate panics in
  \<open>time.NewTicker\<close>. The intervals \<open>-5s\<close> and \<open>1ms\<close> are accepted in the same way.
\<close>

theorem New_accepts_zero_refresh_interval:
  "New fmul
     \<lparr>NewRequest = (\<lambda>u. None), Do = Inr (200, ''200 OK''), ReadAll = Inr ''{}'',
      Unmarshal = (\<lambda>b. Inr \<lparr>GlobalIPList = [], RegionalEdgeIPList = []\<rparr>)\<rparr>
     (\<lambda>k. AnyNil) nxt \<lparr>RefreshInterval = ''0s'', AllowedIPs = []\<rparr> nm
   = Inr \<lparr>next_handler = nxt, name = nm, ips = \<lparr>cfAPI = CFAPI, held = AnyNets []\<rparr>,
          refreshInterval = 0, trustedIPs = []\<rparr>
   \<and> refreshLoop (\<lambda>k. AnyNil)
        \<lparr>next_handler = nxt, name = nm, ips = \<lparr>cfAPI = CFAPI, held = AnyNets []\<rparr>,
         refreshInterval = 0, trustedIPs = []\<rparr> evs = TickerPanic
   \<and> ParseDuration fmul ''-5s'' = Inr (- 5000000000)
   \<and> ParseDuration fmul ''1ms'' = Inr 1000000"
proof -
  have d: "ParseDuration fmul ''0s'' = Inr 0"
    by code_simp
  have u: "Update (newIPStore CFAPI) (createContext (\<lambda>k. AnyNil) HTTPTimeoutDefault [])
     \<lparr>NewRequest = (\<lambda>u. None), Do = Inr (200, ''200 OK''), ReadAll = Inr ''{}'',
      Unmarshal = (\<lambda>b. Inr \<lparr>GlobalIPList = [], RegionalEdgeIPList = []\<rparr>)\<rparr>
     = (\<lparr>cfAPI = CFAPI, held = AnyNets []\<rparr>, None)"
    by code_simp
  have p: "parseCIDRs [] = Inr []"
    by (simp add: parseCIDRs_def)
  have n: "New fmul
     \<lparr>NewRequest = (\<lambda>u. None), Do = Inr (200, ''200 OK''), ReadAll = Inr ''{}'',
      Unmarshal = (\<lambda>b. Inr \<lparr>GlobalIPList = [], RegionalEdgeIPList = []\<rparr>)\<rparr>
     (\<lambda>k. AnyNil) nxt \<lparr>RefreshInterval = ''0s'', AllowedIPs = []\<rparr> nm
   = Inr \<lparr>next_handler = nxt, name = nm, ips = \<lparr>cfAPI = CFAPI, held = AnyNets []\<rparr>,
          refreshInterval = 0, trustedIPs = []\<rparr>"
    by (simp add: New_def d p u)
  have l: "refreshLoop (\<lambda>k. AnyNil)
        \<lparr>next_handler = nxt, name = nm, ips = \<lparr>cfAPI = CFAPI, held = AnyNets []\<rparr>,
         refreshInterval = 0, trustedIPs = []\<rparr> evs = TickerPanic"
    by (simp add: refreshLoop_def)
  have m: "ParseDuration fmul ''-5s'' = Inr (- 5000000000)"
    by code_simp
  have k: "ParseDuration fmul ''1ms'' = Inr 1000000"
    by code_simp
  from n l m k show ?thesis by blast
qed

subsection \<open>Bare addresses\<close>

text \<open>
  Claim C6 at the IPv6 address \<open>::1\<close>. \<open>parseCIDRs\<close> appends \<open>/32\<close> to every entry without
  a slash, whatever its family: the bare address \<open>::1\<close> becomes the network \<open>::/32\<close>, which
  contains \<open>::2\<close> and \<open>0:0:ffff:ffff:ffff:ffff:ffff:ffff\<close> besides \<open>::1\<close>, while \<open>::1/128\<close>
  contains \<open>::1\<close> alone of the three.
\<close>

theorem parseCIDRs_bare_IPv6_is_slash_32:
  "parseCIDRs [''::1'']
     = Inr [\<lparr>IP = [0, 0, 0, 0, 0, 0, 0, 0, 0, 0, 0, 0, 0, 0, 0, 0],
            Mask = [255, 255, 255, 255, 0, 0, 0, 0, 0, 0, 0, 0, 0, 0, 0, 0]\<rparr>]
   \<and> parseCIDRs [''::1/128'']
     = Inr [\<lparr>IP = [0, 0, 0, 0, 0, 0, 0, 0, 0, 0, 0, 0, 0, 0, 0, 1],
            Mask = [255, 255, 255, 255, 255, 255, 255, 255,
                    255, 255, 255, 255, 255, 255, 255, 255]\<rparr>]
   \<and> ParseIP ''::1'' = Some [0, 0, 0, 0, 0, 0, 0, 0, 0, 0, 0, 0, 0, 0, 0, 1]
   \<and> ParseIP ''::2'' = Some [0, 0, 0, 0, 0, 0, 0, 0, 0, 0, 0, 0, 0, 0, 0, 2]
   \<and> ParseIP ''0:0:ffff:ffff:ffff:ffff:ffff:ffff''
       = Some [0, 0, 0, 0, 255, 255, 255, 255, 255, 255, 255, 255, 255, 255, 255, 255]
   \<and> map (IPNet_Contains \<lparr>IP = [0, 0, 0, 0, 0, 0, 0, 0, 0, 0, 0, 0, 0, 0, 0, 0],
                           Mask = [255, 255, 255, 255, 0, 0, 0, 0, 0, 0, 0, 0, 0, 0, 0, 0]\<rparr>)
       [[0, 0, 0, 0, 0, 0, 0, 0, 0, 0, 0, 0, 0, 0, 0, 1],
        [0, 0, 0, 0, 0, 0, 0, 0, 0, 0, 0, 0, 0, 0, 0, 2],
        [0, 0, 0, 0, 255, 255, 255, 255, 255, 255, 255, 255, 255, 255, 255, 255]]
     = [True, True, True]
   \<and> map (IPNet_Contains \<lparr>IP = [0, 0, 0, 0, 0, 0, 0, 0, 0, 0, 0, 0, 0, 0, 0, 1],
                           Mask = [255, 255, 255, 255, 255, 255, 255, 255,
                                   255, 255, 255, 255, 255, 255, 255, 255]\<rparr>)
       [[0, 0, 0, 0, 0, 0, 0, 0, 0, 0, 0, 0, 0, 0, 0, 1],
        [0, 0, 0, 0, 0, 0, 0, 0, 0, 0, 0, 0, 0, 0, 0, 2],
        [0, 0, 0, 0, 255, 255, 255, 255, 255, 255, 255, 255, 255, 255, 255, 255]]
     = [True, False, False]"
  by code_simp

subsection \<open>Membership in the store\<close>

lemma ff_mask: "(0xff :: byte) = mask 8"
  by (simp add: mask_eq_exp_minus_1)

lemma and_ff: "x AND 0xff = x" for x :: byte
  unfolding ff_mask by (simp add: take_bit_word_eq_self flip: take_bit_eq_mask)

lemma byte_mask_eq_iff:
  fixes x y :: byte
  assumes "k \<le> 8"
  shows "(x AND NOT (drop_bit k 0xff) = y AND NOT (drop_bit k 0xff))
     \<longleftrightarrow> unat x div 2 ^ (8 - k) = unat y div 2 ^ (8 - k)"
proof -
  have m: "NOT (drop_bit k (0xff :: byte)) = NOT (mask (8 - k))"
    unfolding ff_mask using assms by (auto simp: bit_eq_iff bit_simps)
  have a: "(x AND NOT (mask n) = y AND NOT (mask n)) \<longleftrightarrow> drop_bit n x = drop_bit n y" for n
  proof
    assume h: "x AND NOT (mask n) = y AND NOT (mask n)"
    show "drop_bit n x = drop_bit n y"
    proof (rule bit_word_eqI)
      fix i
      have "bit (x AND NOT (mask n)) (n + i) = bit (y AND NOT (mask n)) (n + i)"
        using h by simp
      then show "bit (drop_bit n x) i = bit (drop_bit n y) i"
        by (auto simp: bit_simps dest: bit_imp_le_length)
    qed
  next
    assume h: "drop_bit n x = drop_bit n y"
    show "x AND NOT (mask n) = y AND NOT (mask n)"
    proof (rule bit_word_eqI)
      fix i
      show "bit (x AND NOT (mask n)) i = bit (y AND NOT (mask n)) i"
      proof (cases "n \<le> i")
        case True
        then obtain j where i: "i = n + j"
          by (auto simp: le_iff_add)
        have "bit (drop_bit n x) j = bit (drop_bit n y) j"
          using h by simp
        then show ?thesis
          by (simp add: bit_simps i)
      next
        case False
        then show ?thesis
          by (simp add: bit_simps)
      qed
    qed
  qed
  have b: "drop_bit (8 - k) x = drop_bit (8 - k) y \<longleftrightarrow> unat (drop_bit (8 - k) x) = unat (drop_bit (8 - k) y)"
    by (simp add: word_unat_eq_iff)
  have c: "unat (drop_bit n w) = unat w div 2 ^ n" for n and w :: byte
    unfolding unat_drop_bit_eq by (simp add: drop_bit_eq_div)
  show ?thesis unfolding m a b c ..
qed


lemma be_nat_less: "be_nat xs < 256 ^ length xs"
proof (induction xs)
  case Nil
  then show ?case by simp
next
  case (Cons b bs)
  define P :: nat where "P = 256 ^ length bs"
  have "unat b < 2 ^ LENGTH(8)"
    by (rule unsigned_less)
  then have "unat b + 1 \<le> 256"
    by simp
  then have "(unat b + 1) * P \<le> 256 * P"
    by (rule mult_le_mono1)
  moreover have "unat b * P + be_nat bs < (unat b + 1) * P"
    using Cons by (simp add: P_def)
  ultimately have "unat b * P + be_nat bs < 256 * P"
    by (rule less_le_trans [rotated])
  then show ?case by (simp add: P_def)
qed

lemma list_all_upt_Suc:
  "list_all P [0..<Suc l] \<longleftrightarrow> P 0 \<and> list_all (\<lambda>i. P (Suc i)) [0..<l]"
proof -
  have "[0..<Suc l] = 0 # map Suc [0..<l]"
    by (simp add: upt_conv_Cons map_Suc_upt del: upt_Suc)
  then show ?thesis
    by (simp add: list.pred_map comp_def del: upt_Suc)
qed

lemma CIDRMask_loop_zero: "CIDRMask_loop 0 l = replicate l 0"
  by (induction l) auto

lemma div_high_part:
  fixes a X :: nat
  assumes "X < 2 ^ n"
  shows "(a * 2 ^ n + X) div 2 ^ (n + m) = a div 2 ^ m"
proof -
  have "(a * 2 ^ n + X) div 2 ^ (n + m) = (a * 2 ^ n + X) div 2 ^ n div 2 ^ m"
    by (simp add: power_add div_mult2_eq)
  also have "(a * 2 ^ n + X) div 2 ^ n = a"
    using assms by simp
  finally show ?thesis .
qed

lemma div_low_part:
  fixes a X :: nat
  shows "(a * 2 ^ (e + d) + X) div 2 ^ e = a * 2 ^ d + X div 2 ^ e"
proof -
  have "a * 2 ^ (e + d) = (a * 2 ^ d) * 2 ^ e"
    by (simp add: power_add)
  then have "(a * 2 ^ (e + d) + X) div 2 ^ e = ((a * 2 ^ d) * 2 ^ e + X) div 2 ^ e"
    by (simp only:)
  also have "\<dots> = a * 2 ^ d + X div 2 ^ e"
    by simp
  finally show ?thesis .
qed

lemma split_eq_iff:
  fixes a b p q :: nat
  assumes "p < c" and "q < c"
  shows "a * c + p = b * c + q \<longleftrightarrow> a = b \<and> p = q"
proof
  assume h: "a * c + p = b * c + q"
  then have "(a * c + p) div c = (b * c + q) div c" by simp
  with assms have "a = b" by simp
  with h show "a = b \<and> p = q" by simp
qed simp

lemma div_eq_split:
  fixes a b X Y :: nat
  assumes "X < 2 ^ (e + d)" and "Y < 2 ^ (e + d)"
  shows "(a * 2 ^ (e + d) + X) div 2 ^ e = (b * 2 ^ (e + d) + Y) div 2 ^ e
     \<longleftrightarrow> a = b \<and> X div 2 ^ e = Y div 2 ^ e"
proof -
  have "X div 2 ^ e < 2 ^ d" "Y div 2 ^ e < 2 ^ d"
    using assms by (simp_all add: power_add less_mult_imp_div_less mult.commute)
  then show ?thesis
    unfolding div_low_part by (rule split_eq_iff)
qed


lemma masked_eq_iff:
  assumes "length xs = l" and "length ys = l" and "k \<le> 8 * l"
  shows "list_all (\<lambda>i. (xs ! i) AND (CIDRMask_loop k l ! i) = (ys ! i) AND (CIDRMask_loop k l ! i))
           [0..<l]
     \<longleftrightarrow> be_nat xs div 2 ^ (8 * l - k) = be_nat ys div 2 ^ (8 * l - k)"
  using assms
proof (induction l arbitrary: xs ys k)
  case 0
  then show ?case by simp
next
  case (Suc l)
  from Suc.prems obtain x xs' y ys' where xs: "xs = x # xs'" and ys: "ys = y # ys'"
    and lx: "length xs' = l" and ly: "length ys' = l"
    by (auto simp: length_Suc_conv)
  have X: "be_nat xs' < 2 ^ (8 * l)" and Y: "be_nat ys' < 2 ^ (8 * l)"
    using be_nat_less [of xs'] be_nat_less [of ys'] lx ly
    by (simp_all add: power_mult)
  have p: "(256 :: nat) ^ l = 2 ^ (8 * l)"
    by (simp add: power_mult)
  show ?case
  proof (cases "8 \<le> k")
    case True
    with Suc.prems have k: "k - 8 \<le> 8 * l" by simp
    have "8 * Suc l - k \<le> 8 * l"
      using True by simp
    then obtain d where d: "8 * l = (8 * Suc l - k) + d"
      by (auto simp: le_iff_add)
    have e: "8 * Suc l - k = 8 * l - (k - 8)"
      using True by simp
    have "list_all (\<lambda>i. (xs ! i) AND (CIDRMask_loop k (Suc l) ! i)
              = (ys ! i) AND (CIDRMask_loop k (Suc l) ! i)) [0..<Suc l]
        \<longleftrightarrow> x = y \<and> list_all (\<lambda>i. (xs' ! i) AND (CIDRMask_loop (k - 8) l ! i)
              = (ys' ! i) AND (CIDRMask_loop (k - 8) l ! i)) [0..<l]"
      using True unfolding list_all_upt_Suc by (simp add: xs ys and_ff)
    also have "\<dots> \<longleftrightarrow> x = y \<and> be_nat xs' div 2 ^ (8 * Suc l - k) = be_nat ys' div 2 ^ (8 * Suc l - k)"
      using Suc.IH [OF lx ly k] e by simp
    also have "\<dots> \<longleftrightarrow> unat x = unat y
         \<and> be_nat xs' div 2 ^ (8 * Suc l - k) = be_nat ys' div 2 ^ (8 * Suc l - k)"
      by (simp add: word_unat_eq_iff)
    also have "\<dots> \<longleftrightarrow> (unat x * 2 ^ (8 * l) + be_nat xs') div 2 ^ (8 * Suc l - k)
                     = (unat y * 2 ^ (8 * l) + be_nat ys') div 2 ^ (8 * Suc l - k)"
      using X Y unfolding d by (rule div_eq_split [symmetric])
    also have "\<dots> \<longleftrightarrow> be_nat xs div 2 ^ (8 * Suc l - k) = be_nat ys div 2 ^ (8 * Suc l - k)"
      by (simp add: xs ys lx ly p)
    finally show ?thesis .
  next
    case False
    then have k: "k \<le> 8" by simp
    have e: "8 * Suc l - k = 8 * l + (8 - k)"
      using k by simp
    have "list_all (\<lambda>i. (xs ! i) AND (CIDRMask_loop k (Suc l) ! i)
              = (ys ! i) AND (CIDRMask_loop k (Suc l) ! i)) [0..<Suc l]
        \<longleftrightarrow> x AND NOT (drop_bit k 0xff) = y AND NOT (drop_bit k 0xff)"
      using False unfolding list_all_upt_Suc
      by (simp add: xs ys CIDRMask_loop_zero list_all_iff)
    also have "\<dots> \<longleftrightarrow> unat x div 2 ^ (8 - k) = unat y div 2 ^ (8 - k)"
      using k by (rule byte_mask_eq_iff)
    also have "\<dots> \<longleftrightarrow> (unat x * 2 ^ (8 * l) + be_nat xs') div 2 ^ (8 * l + (8 - k))
                     = (unat y * 2 ^ (8 * l) + be_nat ys') div 2 ^ (8 * l + (8 - k))"
      using X Y by (simp only: div_high_part)
    also have "\<dots> \<longleftrightarrow> be_nat xs div 2 ^ (8 * Suc l - k) = be_nat ys div 2 ^ (8 * Suc l - k)"
      unfolding e by (simp add: xs ys lx ly p)
    finally show ?thesis .
  qed
qed


lemma byte_bits_ff: "byte_bits 0xff = replicate 8 True"
  by (simp add: byte_bits_def ff_mask bit_simps numeral_eq_Suc)

lemma byte_bits_mask:
  assumes "k < 8"
  shows "byte_bits (NOT (drop_bit k 0xff)) = replicate k True @ replicate (8 - k) False"
proof -
  from assms consider "k = 0" | "k = 1" | "k = 2" | "k = 3" | "k = 4" | "k = 5" | "k = 6" | "k = 7"
    by linarith
  then show ?thesis
    by cases (simp_all add: byte_bits_def ff_mask bit_simps numeral_eq_Suc)
qed

lemma takeWhile_replicate_True:
  "takeWhile (\<lambda>x. x) (replicate n True @ xs) = replicate n True @ takeWhile (\<lambda>x. x) xs"
  by (induction n) auto

lemma mask_ones_CIDRMask_loop:
  "k \<le> 8 * l \<Longrightarrow> mask_ones (CIDRMask_loop k l) = k"
proof (induction l arbitrary: k)
  case 0
  then show ?case by (simp add: mask_ones_def)
next
  case (Suc l)
  show ?case
  proof (cases "8 \<le> k")
    case True
    with Suc.prems have "k - 8 \<le> 8 * l" by simp
    from Suc.IH [OF this] True show ?thesis
      by (simp add: mask_ones_def byte_bits_ff takeWhile_replicate_True)
  next
    case False
    then have "k < 8" by simp
    from byte_bits_mask [OF this] obtain r where
      "byte_bits (NOT (drop_bit k 0xff)) = replicate k True @ False # r"
      using \<open>k < 8\<close> by (cases "8 - k") auto
    with False show ?thesis
      by (simp add: mask_ones_def takeWhile_replicate_True)
  qed
qed

lemma drop_CIDRMask_loop:
  "drop j (CIDRMask_loop k l) = CIDRMask_loop (k - 8 * j) (l - j)"
proof (induction j arbitrary: k l)
  case 0
  then show ?case by simp
next
  case (Suc j)
  show ?case
  proof (cases l)
    case 0
    then show ?thesis by simp
  next
    case (Suc l')
    then show ?thesis
      using Suc.IH [of "k - 8" l'] Suc.IH [of 0 l'] by (auto simp: CIDRMask_loop_zero)
  qed
qed


lemma CIDRMask_eq_loop:
  assumes "m = CIDRMask (mask_ones m) (8 * l)" and "l = 4 \<or> l = 16"
  shows "mask_ones m \<le> 8 * l \<and> m = CIDRMask_loop (mask_ones m) l"
proof (cases "mask_ones m \<le> 8 * l")
  case True
  with assms show ?thesis
    by (auto simp: CIDRMask_def IPv4len_def IPv6len_def)
next
  case False
  with assms have "m = []"
    by (auto simp: CIDRMask_def IPv4len_def IPv6len_def)
  then have "mask_ones m = 0"
    by (simp add: mask_ones_def)
  with False show ?thesis by simp
qed

lemma To4_length: "To4 ip = Some x \<Longrightarrow> length x = 4"
  by (auto simp: To4_def IPv4len_def IPv6len_def split: if_splits)

lemma To4_None_length: "To4 ip = None \<Longrightarrow> length ip \<noteq> 4"
  by (auto simp: To4_def IPv4len_def split: if_splits)

lemma To4_of_4: "length ip = 4 \<Longrightarrow> To4 ip = Some ip"
  by (simp add: To4_def IPv4len_def)

text \<open>
  Refinement: on a network as \<open>ParseCIDR\<close> makes them, the bytewise test of
  \<open>IPNet.Contains\<close> is the comparison of the first \<open>plen\<close> bits of the two numbers.
\<close>

lemma IPNet_Contains_iff_in_range:
  assumes v: "valid_net n" and ip: "length ip = 4 \<or> length ip = 16"
  shows "IPNet_Contains n ip \<longleftrightarrow> in_range (range_of n) (address_of ip)"
proof -
  define k where "k = mask_ones (Mask n)"
  define a where "a = (case To4 ip of Some x \<Rightarrow> x | None \<Rightarrow> ip)"
  have la: "length a = (if To4 ip = None then 16 else 4)"
    using ip by (auto simp: a_def dest: To4_length To4_None_length split: option.splits)
  have addr: "address_of ip = (if To4 ip = None then V6 else V4, be_nat a)"
    by (auto simp: address_of_def a_def split: option.splits)
  from v have len: "length (IP n) = 4 \<or> length (IP n) = 16"
    and m: "Mask n = CIDRMask k (8 * length (IP n))"
    by (simp_all add: valid_net_def k_def IPv4len_def IPv6len_def)
  from CIDRMask_eq_loop [OF m [unfolded k_def] len]
  have k: "k \<le> 8 * length (IP n)" and ml: "Mask n = CIDRMask_loop k (length (IP n))"
    by (simp_all add: k_def)
  show ?thesis
  proof (cases "length (IP n) = 4")
    case True
    with ml have lm: "length (Mask n) = 4"
      by (simp add: CIDRMask_loop_length)
    have nm: "networkNumberAndMask n = (IP n, Mask n)"
      using True lm by (simp add: networkNumberAndMask_def To4_of_4 IPv4len_def IPv6len_def)
    have r: "range_of n = \<lparr>fam = V4, base = be_nat (IP n), plen = k\<rparr>"
      using True lm by (simp add: range_of_def To4_of_4 IPv6len_def k_def)
    show ?thesis
    proof (cases "To4 ip = None")
      case None: True
      with la True show ?thesis
        by (auto simp: IPNet_Contains_def nm r addr in_range_def a_def)
    next
      case False
      with la have l4: "length a = 4" by simp
      have "IPNet_Contains n ip \<longleftrightarrow>
          list_all (\<lambda>i. (IP n ! i) AND (CIDRMask_loop k 4 ! i) = (a ! i) AND (CIDRMask_loop k 4 ! i))
            [0..<4]"
        using True l4 ml by (simp add: IPNet_Contains_def nm a_def Let_def)
      also have "\<dots> \<longleftrightarrow> be_nat (IP n) div 2 ^ (8 * 4 - k) = be_nat a div 2 ^ (8 * 4 - k)"
        using True l4 k by (intro masked_eq_iff) simp_all
      also have "\<dots> \<longleftrightarrow> in_range (range_of n) (address_of ip)"
        using False by (auto simp: r addr in_range_def)
      finally show ?thesis .
    qed
  next
    case not4: False
    with len have l16: "length (IP n) = 16" by simp
    with ml have lm: "length (Mask n) = 16"
      by (simp add: CIDRMask_loop_length)
    show ?thesis
    proof (cases "To4 (IP n)")
      case None
      have nm: "networkNumberAndMask n = (IP n, Mask n)"
        using None l16 lm by (simp add: networkNumberAndMask_def IPv4len_def IPv6len_def)
      have r: "range_of n = \<lparr>fam = V6, base = be_nat (IP n), plen = k\<rparr>"
        using None by (simp add: range_of_def k_def)
      show ?thesis
      proof (cases "To4 ip = None")
        case True
        with la have la16: "length a = 16" by simp
        have "IPNet_Contains n ip \<longleftrightarrow>
            list_all (\<lambda>i. (IP n ! i) AND (CIDRMask_loop k 16 ! i) = (a ! i) AND (CIDRMask_loop k 16 ! i))
              [0..<16]"
          using l16 la16 ml by (simp add: IPNet_Contains_def nm a_def Let_def)
        also have "\<dots> \<longleftrightarrow> be_nat (IP n) div 2 ^ (8 * 16 - k) = be_nat a div 2 ^ (8 * 16 - k)"
          using l16 la16 k by (intro masked_eq_iff) simp_all
        also have "\<dots> \<longleftrightarrow> in_range (range_of n) (address_of ip)"
          using True by (auto simp: r addr in_range_def)
        finally show ?thesis .
      next
        case False
        with la l16 show ?thesis
          by (auto simp: IPNet_Contains_def nm r addr in_range_def a_def)
      qed
    next
      case (Some x)
      then have lx: "length x = 4" by (rule To4_length)
      have dm: "drop 12 (Mask n) = CIDRMask_loop (k - 96) 4"
        using ml l16 by (simp add: drop_CIDRMask_loop)
      have nm: "networkNumberAndMask n = (x, CIDRMask_loop (k - 96) 4)"
        using Some lx lm dm by (simp add: networkNumberAndMask_def IPv4len_def IPv6len_def)
      have r: "range_of n = \<lparr>fam = V4, base = be_nat x, plen = k - 96\<rparr>"
        using Some lm by (simp add: range_of_def k_def IPv6len_def)
      have k': "k - 96 \<le> 8 * 4"
        using k l16 by simp
      show ?thesis
      proof (cases "To4 ip = None")
        case True
        with la lx show ?thesis
          by (auto simp: IPNet_Contains_def nm r addr in_range_def a_def)
      next
        case False
        with la have l4: "length a = 4" by simp
        have "IPNet_Contains n ip \<longleftrightarrow>
            list_all (\<lambda>i. (x ! i) AND (CIDRMask_loop (k - 96) 4 ! i)
                = (a ! i) AND (CIDRMask_loop (k - 96) 4 ! i)) [0..<4]"
          using lx l4 by (simp add: IPNet_Contains_def nm a_def Let_def)
        also have "\<dots> \<longleftrightarrow> be_nat x div 2 ^ (8 * 4 - (k - 96)) = be_nat a div 2 ^ (8 * 4 - (k - 96))"
          using lx l4 k' by (intro masked_eq_iff) simp_all
        also have "\<dots> \<longleftrightarrow> in_range (range_of n) (address_of ip)"
          using False by (auto simp: r addr in_range_def)
        finally show ?thesis .
      qed
    qed
  qed
qed

declare parseIPv6_loop.simps [simp del]

declare parseIPv6_hex.simps [simp del]

lemma parseIPv4Fields_loop_length:
  "parseIPv4Fields_loop s i val pos digLen flds = Inr (v, p, f) \<Longrightarrow> length f = length flds"
proof (induction s i val pos digLen flds rule: parseIPv4Fields_loop.induct)
  case (1 s i val pos digLen flds)
  from "1.prems" show ?case
    by (subst (asm) parseIPv4Fields_loop.simps)
       (auto simp: Let_def split: if_splits dest: "1.IH")
qed

lemma parseIPv4Fields_length:
  assumes "parseIPv4Fields s = Inr f"
  shows "length f = 4"
proof -
  from assms obtain v p f' where l: "parseIPv4Fields_loop s 0 0 0 0 [0, 0, 0, 0] = Inr (v, p, f')"
    and f: "f = f'[3 := of_nat v]"
    by (auto simp: parseIPv4Fields_def split: sum.splits if_splits)
  from parseIPv4Fields_loop_length [OF l] f show ?thesis by simp
qed


lemma parseIPv6_loop_length:
  "parseIPv6_loop inp s i ip e = Inr (s', i', ip', e') \<Longrightarrow> length ip = 16 \<Longrightarrow> length ip' = 16"
proof (induction inp s i ip e rule: parseIPv6_loop.induct)
  case (1 inp s i ip e)
  note prem = "1.prems"(1) and len = "1.prems"(2)
  show ?case
  proof (cases "i < 16")
    case False
    with prem have "ip' = ip"
      by (subst (asm) parseIPv6_loop.simps) simp
    with len show ?thesis by simp
  next
    case lt: True
    show ?thesis
    proof (cases "parseIPv6_hex inp s 0 0")
      case (Inl err)
      with prem lt show ?thesis
        by (subst (asm) parseIPv6_loop.simps) simp
    next
      case (Inr b)
      obtain off acc where b: "b = (off, acc)" by (cases b)
      show ?thesis
      proof (cases "off = 0")
        case True
        with prem lt Inr b show ?thesis
          by (subst (asm) parseIPv6_loop.simps) simp
      next
        case nz: False
        show ?thesis
        proof (cases "off < length s \<and> s ! off = CHR ''.''")
          case True
          with prem lt Inr b nz obtain flds where f: "parseIPv4Fields s = Inr flds"
            and r: "ip' = take i ip @ flds @ drop (i + 4) ip" and i4: "i + 4 \<le> 16"
            by (subst (asm) parseIPv6_loop.simps) (auto split: if_splits sum.splits)
          from parseIPv4Fields_length [OF f] r i4 len show ?thesis by simp
        next
          case nodot: False
          define ip1 where "ip1 = ip[i := of_nat (acc div 256), i + 1 := of_nat acc]"
          define s1 where "s1 = drop off s"
          define s2 where "s2 = drop 1 s1"
          have l1: "length ip1 = 16"
            using len by (simp add: ip1_def)
          from prem lt Inr b nz nodot
          have r: "(if s1 = [] then Inr (s1, i + 2, ip1, e)
                   else if s1 ! 0 \<noteq> CHR '':'' then
                     Inl (parseAddrError inp ''unexpected character, want colon'')
                   else if length s1 = 1 then
                     Inl (parseAddrError inp ''colon must be followed by more characters'')
                   else if s2 ! 0 = CHR '':'' then
                        (if e \<noteq> None then
                           Inl (parseAddrError inp ''multiple :: in address'')
                         else if drop 1 s2 = [] then Inr ([], i + 2, ip1, Some (i + 2))
                         else parseIPv6_loop inp (drop 1 s2) (i + 2) ip1 (Some (i + 2)))
                   else parseIPv6_loop inp s2 (i + 2) ip1 e) = Inr (s', i', ip', e')"
            unfolding parseIPv6_loop.simps [of inp s i ip e] ip1_def s1_def s2_def Let_def
            by (simp only: if_True if_False sum.case prod.case simp_thms)
          show ?thesis
          proof (cases "s1 = []")
            case True
            with r l1 show ?thesis by simp
          next
            case ne: False
            show ?thesis
            proof (cases "s1 ! 0 \<noteq> CHR '':'' \<or> length s1 = 1")
              case True
              with r ne show ?thesis by (auto split: if_splits)
            next
              case colon: False
              then have c1: "\<not> s1 ! 0 \<noteq> CHR '':''" and c2: "length s1 \<noteq> 1" by simp_all
              show ?thesis
              proof (cases "s2 ! 0 = CHR '':''")
                case dbl: True
                show ?thesis
                proof (cases "e \<noteq> None")
                  case True
                  with r ne colon dbl show ?thesis by (auto split: if_splits)
                next
                  case noell: False
                  show ?thesis
                  proof (cases "drop 1 s2 = []")
                    case True
                    with r ne colon dbl noell l1 show ?thesis by (auto split: if_splits)
                  next
                    case more: False
                    with r ne colon dbl noell
                    have "parseIPv6_loop inp (drop 1 s2) (i + 2) ip1 (Some (i + 2))
                        = Inr (s', i', ip', e')"
                      by (auto split: if_splits)
                    from "1.IH"(1) [OF lt Inr b [symmetric] nz nodot ip1_def refl s1_def ne c1 c2
                        s2_def dbl noell more this l1]
                    show ?thesis .
                  qed
                qed
              next
                case single: False
                with r ne colon
                have "parseIPv6_loop inp s2 (i + 2) ip1 e = Inr (s', i', ip', e')"
                  by (auto split: if_splits)
                from "1.IH"(2) [OF lt Inr b [symmetric] nz nodot ip1_def refl s1_def ne c1 c2
                    s2_def single this l1]
                show ?thesis .
              qed
            qed
          qed
        qed
      qed
    qed
  qed
qed

lemma length_fold_update:
  "length (fold (\<lambda>j a. a[f j := g a j]) js a) = length a"
  by (induction js arbitrary: a) auto


lemma parseIPv6_length:
  assumes "parseIPv6 inp = Inr ad"
  shows "\<exists>b z. ad = IPv6Addr b z \<and> length b = 16"
proof -
  define pre where "pre = (case IndexByteString inp (CHR ''%'') of
      None \<Rightarrow> Inr (inp, [])
    | Some k \<Rightarrow>
        if drop (Suc k) inp = []
        then Inl (parseAddrError inp ''zone must be a non-empty string'')
        else Inr (take k inp, drop (Suc k) inp))"
  from assms obtain s0 zone where pre: "pre = Inr (s0, zone)"
    unfolding parseIPv6_def pre_def [symmetric] by (cases pre) auto
  define lead where "lead = (length s0 \<ge> 2 \<and> s0 ! 0 = CHR '':'' \<and> s0 ! 1 = CHR '':'')"
  define s1 where "s1 = (if lead then drop 2 s0 else s0)"
  define e0 where "e0 = (if lead then Some (0 :: nat) else None)"
  from assms pre
  have r: "(if lead \<and> s1 = [] then Inr (IPv6Addr (replicate 16 0) zone)
            else
              (case parseIPv6_loop inp s1 0 (replicate 16 0) e0 of
                 Inl e \<Rightarrow> Inl e
               | Inr (s, i, ip, ellipsis) \<Rightarrow>
                   if s \<noteq> [] then Inl (parseAddrError inp ''trailing garbage after address'')
                   else if i < 16 then
                     (case ellipsis of
                        None \<Rightarrow> Inl (parseAddrError inp ''address string too short'')
                      | Some e \<Rightarrow>
                          Inr (IPv6Addr (fold (\<lambda>j a. a[j := 0]) [e..<e + (16 - i)]
                                 (fold (\<lambda>j a. a[j + (16 - i) := a ! j]) (rev [e..<i]) ip)) zone))
                   else if ellipsis \<noteq> None then
                     Inl (parseAddrError inp
                       ''the :: must expand to at least one field of zeros'')
                   else Inr (IPv6Addr ip zone))) = Inr ad"
    unfolding parseIPv6_def pre_def [symmetric] lead_def s1_def e0_def Let_def
    by (simp only: sum.case prod.case)
  show ?thesis
  proof (cases "lead \<and> s1 = []")
    case True
    with r show ?thesis by auto
  next
    case False
    with r obtain s i ip ell where l: "parseIPv6_loop inp s1 0 (replicate 16 0) e0 = Inr (s, i, ip, ell)"
      and r2: "(if s \<noteq> [] then Inl (parseAddrError inp ''trailing garbage after address'')
                   else if i < 16 then
                     (case ell of
                        None \<Rightarrow> Inl (parseAddrError inp ''address string too short'')
                      | Some e \<Rightarrow>
                          Inr (IPv6Addr (fold (\<lambda>j a. a[j := 0]) [e..<e + (16 - i)]
                                 (fold (\<lambda>j a. a[j + (16 - i) := a ! j]) (rev [e..<i]) ip)) zone))
                   else if ell \<noteq> None then
                     Inl (parseAddrError inp
                       ''the :: must expand to at least one field of zeros'')
                   else Inr (IPv6Addr ip zone)) = Inr ad"
      by (cases "parseIPv6_loop inp s1 0 (replicate 16 0) e0") auto
    from parseIPv6_loop_length [OF l] have len: "length ip = 16" by simp
    have f1: "length (fold (\<lambda>j a. a[j + (16 - i) := a ! j]) js ip) = 16" for js
      using length_fold_update [of "\<lambda>j. j + (16 - i)" "\<lambda>a j. a ! j" js ip] len by simp
    have f2: "length (fold (\<lambda>j a. a[j := 0]) js a) = length a" for js and a :: "byte list"
      using length_fold_update [of "\<lambda>j. j" "\<lambda>a j. 0" js a] by simp
    from r2 len f1 f2 show ?thesis
      by (auto split: if_splits option.splits)
  qed
qed

lemma ParseAddr_scan_length:
  "ParseAddr_scan s t = Inr ad \<Longrightarrow>
     (\<exists>b. ad = IPv4Addr b \<and> length b = 4) \<or> (\<exists>b z. ad = IPv6Addr b z \<and> length b = 16)"
proof (induction t)
  case Nil
  then show ?case by simp
next
  case (Cons c cs)
  show ?case
  proof (cases "c = CHR ''.''")
    case True
    with Cons.prems have "parseIPv4 s = Inr ad" by simp
    then show ?thesis
      by (auto simp: parseIPv4_def split: sum.splits dest: parseIPv4Fields_length)
  next
    case nd: False
    show ?thesis
    proof (cases "c = CHR '':''")
      case True
      with nd Cons.prems have "parseIPv6 s = Inr ad" by simp
      then show ?thesis by (auto dest: parseIPv6_length)
    next
      case False
      with nd Cons show ?thesis by (auto split: if_splits)
    qed
  qed
qed

lemma ParseAddr_length:
  "ParseAddr s = Inr ad \<Longrightarrow>
     (\<exists>b. ad = IPv4Addr b \<and> length b = 4) \<or> (\<exists>b z. ad = IPv6Addr b z \<and> length b = 16)"
  unfolding ParseAddr_def by (rule ParseAddr_scan_length)

lemma CIDRMask_32: "n \<le> 32 \<Longrightarrow> CIDRMask n 32 = CIDRMask_loop n 4"
  by (simp add: CIDRMask_def IPv4len_def IPv6len_def)

lemma CIDRMask_128: "n \<le> 128 \<Longrightarrow> CIDRMask n 128 = CIDRMask_loop n 16"
  by (simp add: CIDRMask_def IPv4len_def IPv6len_def)

lemma IP_Mask_length_4in6:
  assumes "length b = 4" and "length m = 4"
  shows "length (IP_Mask (v4InV6Prefix @ b) m) = 4"
proof -
  have "take 12 (v4InV6Prefix @ b) = v4InV6Prefix" and "drop 12 (v4InV6Prefix @ b) = b"
    and "length (v4InV6Prefix @ b) = 16"
    using assms by (simp_all add: v4InV6Prefix_def)
  with assms show ?thesis
    by (simp add: IP_Mask_def IPv4len_def IPv6len_def Let_def)
qed

lemma IP_Mask_length_16:
  assumes "length b = 16" and "length m = 16"
  shows "length (IP_Mask b m) = 16"
  using assms by (simp add: IP_Mask_def IPv4len_def IPv6len_def Let_def)

lemma valid_net_CIDR_4:
  assumes "length a = 4" and "n \<le> 32"
  shows "valid_net \<lparr>IP = a, Mask = CIDRMask n 32\<rparr>"
  using assms mask_ones_CIDRMask_loop [of n 4]
  by (simp add: valid_net_def CIDRMask_32 IPv4len_def)

lemma valid_net_CIDR_16:
  assumes "length a = 16" and "n \<le> 128"
  shows "valid_net \<lparr>IP = a, Mask = CIDRMask n 128\<rparr>"
  using assms mask_ones_CIDRMask_loop [of n 16]
  by (simp add: valid_net_def CIDRMask_128 IPv4len_def IPv6len_def)

lemma ParseCIDR_valid:
  assumes "ParseCIDR s = Inr (a, n)"
  shows "valid_net n"
proof -
  from assms obtain i where i: "IndexByteString s (CHR ''/'') = Some i"
    by (cases "IndexByteString s (CHR ''/'')") (auto simp: ParseCIDR_def)
  from assms i obtain ad where ad: "ParseAddr (take i s) = Inr ad"
    by (cases "ParseAddr (take i s)") (auto simp: ParseCIDR_def Let_def)
  obtain k j ok where d: "dtoi (drop (Suc i) s) = (k, j, ok)"
    by (cases "dtoi (drop (Suc i) s)") auto
  from assms i ad d have k: "k \<le> BitLen ad"
    and n: "n = \<lparr>IP = IP_Mask (As16 ad) (CIDRMask k (BitLen ad)), Mask = CIDRMask k (BitLen ad)\<rparr>"
    by (auto simp: ParseCIDR_def Let_def split: if_splits)
  from ParseAddr_length [OF ad] show ?thesis
  proof
    assume "\<exists>b. ad = IPv4Addr b \<and> length b = 4"
    then obtain b where b: "ad = IPv4Addr b" and lb: "length b = 4" by blast
    from k b have k32: "k \<le> 32" by simp
    then have "length (CIDRMask k 32) = 4"
      by (simp add: CIDRMask_32 CIDRMask_loop_length)
    with lb have "length (IP_Mask (v4InV6Prefix @ b) (CIDRMask k 32)) = 4"
      by (rule IP_Mask_length_4in6)
    with k32 show ?thesis
      unfolding n b by (simp add: valid_net_CIDR_4)
  next
    assume "\<exists>b z. ad = IPv6Addr b z \<and> length b = 16"
    then obtain b z where b: "ad = IPv6Addr b z" and lb: "length b = 16" by blast
    from k b have k128: "k \<le> 128" by simp
    then have "length (CIDRMask k 128) = 16"
      by (simp add: CIDRMask_128 CIDRMask_loop_length)
    with lb have "length (IP_Mask b (CIDRMask k 128)) = 16"
      by (rule IP_Mask_length_16)
    with k128 show ?thesis
      unfolding n b by (simp add: valid_net_CIDR_16)
  qed
qed

lemma parseCIDRs_loop_valid:
  "parseCIDRs_loop entries acc = Inr ns \<Longrightarrow> list_all valid_net acc \<Longrightarrow> list_all valid_net ns"
proof (induction entries arbitrary: acc)
  case Nil
  then show ?case by simp
next
  case (Cons e es)
  define e' where "e' = (if \<not> strings_Contains e ''/'' then e @ ''/32'' else e)"
  from Cons.prems(1) obtain a n where p: "ParseCIDR e' = Inr (a, n)"
    and r: "parseCIDRs_loop es (acc @ [n]) = Inr ns"
    by (cases "ParseCIDR e'") (auto simp: Let_def e'_def)
  from ParseCIDR_valid [OF p] Cons.prems(2) have "list_all valid_net (acc @ [n])"
    by simp
  with Cons.IH [OF r] show ?case .
qed

lemma parseCIDRs_valid: "parseCIDRs entries = Inr ns \<Longrightarrow> list_all valid_net ns"
  unfolding parseCIDRs_def by (erule parseCIDRs_loop_valid) simp


text \<open>
  What the store of a gate holds. Every range that \<open>New\<close> or a refresh stores comes
  from \<open>parseCIDRs\<close>, so it is a network with a CIDR mask.
\<close>

lemma fetch_valid: "fetch s c w = Inr remote \<Longrightarrow> list_all valid_net remote"
proof -
  assume "fetch s c w = Inr remote"
  from fetch_success [OF this] obtain resp where "parseResponse resp = Inr remote" by blast
  from parseResponse_success [OF this] show ?thesis
    by (auto dest!: parseCIDRs_valid)
qed

lemma Update_valid:
  assumes "Update s c w = (s', r)" and "c CTXTrustedIPs = AnyNets trusted"
    and "list_all valid_net trusted" and "Load s = AnyNets cidrs" and "list_all valid_net cidrs"
  shows "\<exists>cidrs'. Load s' = AnyNets cidrs' \<and> list_all valid_net cidrs'"
proof (cases "fetch s c w")
  case (Inl err)
  with assms show ?thesis by (auto simp: Update_def)
next
  case (Inr remote)
  from fetch_valid [OF this] assms Inr show ?thesis
    by (auto simp: Update_def Store_def Load_def)
qed

lemma New_valid:
  assumes "New fmul w c nxt config nm = Inr cf"
  shows "list_all valid_net (trustedIPs cf)
       \<and> (\<exists>cidrs. Load (ips cf) = AnyNets cidrs \<and> list_all valid_net cidrs)"
proof -
  from New_success [OF assms] obtain interval trusted remote where
    t: "parseCIDRs (AllowedIPs config) = Inr trusted"
    and f: "fetch (newIPStore CFAPI) (createContext c HTTPTimeoutDefault trusted) w = Inr remote"
    and cf: "cf = \<lparr>next_handler = nxt, name = nm,
                  ips = Store (newIPStore CFAPI) (AnyNets (trusted @ remote)),
                  refreshInterval = interval, trustedIPs = trusted\<rparr>"
    by blast
  from parseCIDRs_valid [OF t] fetch_valid [OF f] show ?thesis
    by (simp add: cf Store_def Load_def)
qed

lemma refreshLoop_select_valid:
  assumes "refreshLoop_select c cf logged evs = Waiting cf' logged'
         \<or> refreshLoop_select c cf logged evs = Stopped cf' logged'"
    and "list_all valid_net (trustedIPs cf)"
    and "\<exists>cidrs. Load (ips cf) = AnyNets cidrs \<and> list_all valid_net cidrs"
  shows "list_all valid_net (trustedIPs cf')
       \<and> (\<exists>cidrs. Load (ips cf') = AnyNets cidrs \<and> list_all valid_net cidrs)"
  using assms
proof (induction c cf logged evs rule: refreshLoop_select.induct)
  case (1 c cf logged)
  then show ?case by simp
next
  case (2 c cf logged evs)
  then show ?case by simp
next
  case (3 c cf logged w evs)
  define cu where "cu = createContext c HTTPTimeoutDefault (trustedIPs cf)"
  obtain s' r where u: "Update (ips cf) cu w = (s', r)"
    by (cases "Update (ips cf) cu w") auto
  from "3.prems"(3) obtain cidrs where "Load (ips cf) = AnyNets cidrs" and "list_all valid_net cidrs"
    by blast
  with Update_valid [OF u, of "trustedIPs cf" cidrs] "3.prems"(2)
  have v: "\<exists>cidrs'. Load s' = AnyNets cidrs' \<and> list_all valid_net cidrs'"
    by (simp add: cu_def createContext_TrustedIPs)
  show ?case
  proof (cases r)
    case None
    with "3.prems"(1) u have "refreshLoop_select c (cf\<lparr>ips := s'\<rparr>) logged evs = Waiting cf' logged'
         \<or> refreshLoop_select c (cf\<lparr>ips := s'\<rparr>) logged evs = Stopped cf' logged'"
      by (simp add: cu_def)
    from "3.IH"(1) [OF cu_def u [symmetric] None this] "3.prems"(2) v show ?thesis
      by simp
  next
    case (Some err)
    with "3.prems"(1) u have "refreshLoop_select c (cf\<lparr>ips := s'\<rparr>)
           (logged @ [Errorf_w ''Failed to update CloudFront IP ranges'' err]) evs = Waiting cf' logged'
         \<or> refreshLoop_select c (cf\<lparr>ips := s'\<rparr>)
           (logged @ [Errorf_w ''Failed to update CloudFront IP ranges'' err]) evs = Stopped cf' logged'"
      by (simp add: cu_def)
    from "3.IH"(2) [OF cu_def u [symmetric] Some this] "3.prems"(2) v show ?thesis
      by simp
  qed
qed

lemma ParseIP_length: "ParseIP t = Some a \<Longrightarrow> length a = 16"
proof -
  assume p: "ParseIP t = Some a"
  then obtain ad where ad: "ParseAddr t = Inr ad" and a: "a = As16 ad"
    by (auto simp: ParseIP_def split: sum.splits if_splits)
  from ParseAddr_length [OF ad] a show ?thesis
    by (auto simp: v4InV6Prefix_def)
qed

text \<open>
  Claim C1. Let the address have 4 or 16 bytes, as every \<open>net.IP\<close> that \<open>net.ParseIP\<close>
  returns has. When the store holds a list of networks with CIDR masks, \<open>Contains\<close> is true
  exactly when the address lies in the range of one of them: same family, and the same
  first \<open>plen\<close> bits as the base. When the value loaded is not a list of networks,
  \<open>Contains\<close> is false. The store of every gate that \<open>New\<close> returns, and of that gate after
  any refreshes of its loop, holds such a list, so for it \<open>Contains\<close> is membership in one
  of the ranges held.
\<close>

theorem ipstore_Contains_iff_in_a_range:
  assumes "length a = 4 \<or> length a = 16"
  shows "(Load s = AnyNets cidrs \<and> list_all valid_net cidrs \<longrightarrow>
            ipstore_Contains s a = (\<exists>r \<in> set cidrs. in_range (range_of r) (address_of a)))
       \<and> ((\<forall>cidrs. Load s \<noteq> AnyNets cidrs) \<longrightarrow> \<not> ipstore_Contains s a)
       \<and> (New fmul w c nxt config nm = Inr cf
            \<and> (refreshLoop_select c' cf logged evs = Waiting cf' logged'
               \<or> refreshLoop_select c' cf logged evs = Stopped cf' logged') \<longrightarrow>
            (\<exists>held. Load (ips cf') = AnyNets held
               \<and> ipstore_Contains (ips cf') a
                   = (\<exists>r \<in> set held. in_range (range_of r) (address_of a))))"
proof (intro conjI impI)
  assume h: "Load s = AnyNets cidrs \<and> list_all valid_net cidrs"
  then have "ipstore_Contains s a = (\<exists>r \<in> set cidrs. IPNet_Contains r a)"
    by (simp add: ipstore_Contains_def Contains_loop_iff)
  also have "\<dots> = (\<exists>r \<in> set cidrs. in_range (range_of r) (address_of a))"
    using h assms by (auto simp: list_all_iff IPNet_Contains_iff_in_range)
  finally show "ipstore_Contains s a = (\<exists>r \<in> set cidrs. in_range (range_of r) (address_of a))" .
next
  assume "\<forall>cidrs. Load s \<noteq> AnyNets cidrs"
  then show "\<not> ipstore_Contains s a"
    by (cases "Load s") (simp_all add: ipstore_Contains_def)
next
  assume h: "New fmul w c nxt config nm = Inr cf
            \<and> (refreshLoop_select c' cf logged evs = Waiting cf' logged'
               \<or> refreshLoop_select c' cf logged evs = Stopped cf' logged')"
  then have n: "New fmul w c nxt config nm = Inr cf"
    and l: "refreshLoop_select c' cf logged evs = Waiting cf' logged'
               \<or> refreshLoop_select c' cf logged evs = Stopped cf' logged'"
    by simp_all
  from New_valid [OF n] refreshLoop_select_valid [OF l]
  obtain held where ld: "Load (ips cf') = AnyNets held" and v: "list_all valid_net held"
    by blast
  then have "ipstore_Contains (ips cf') a = (\<exists>r \<in> set held. IPNet_Contains r a)"
    by (simp add: ipstore_Contains_def Contains_loop_iff)
  also have "\<dots> = (\<exists>r \<in> set held. in_range (range_of r) (address_of a))"
    using v assms by (auto simp: list_all_iff IPNet_Contains_iff_in_range)
  finally show "\<exists>held. Load (ips cf') = AnyNets held
               \<and> ipstore_Contains (ips cf') a
                   = (\<exists>r \<in> set held. in_range (range_of r) (address_of a))"
    using ld by blast
qed

theorem ipstore_Contains_iff_in_a_range_witness:
  "ParseIP ''10.0.0.5'' = Some [0, 0, 0, 0, 0, 0, 0, 0, 0, 0, 0xff, 0xff, 10, 0, 0, 5]
   \<and> parseCIDRs [''10.0.1.0/24'', ''10.0.0.0/24'']
       = Inr [\<lparr>IP = [10, 0, 1, 0], Mask = [255, 255, 255, 0]\<rparr>,
              \<lparr>IP = [10, 0, 0, 0], Mask = [255, 255, 255, 0]\<rparr>]
   \<and> range_of \<lparr>IP = [10, 0, 0, 0], Mask = [255, 255, 255, 0]\<rparr>
       = \<lparr>fam = V4, base = 167772160, plen = 24\<rparr>
   \<and> address_of [0, 0, 0, 0, 0, 0, 0, 0, 0, 0, 0xff, 0xff, 10, 0, 0, 5] = (V4, 167772165)
   \<and> ipstore_Contains
        \<lparr>cfAPI = CFAPI, held = AnyNets [\<lparr>IP = [10, 0, 1, 0], Mask = [255, 255, 255, 0]\<rparr>,
                                       \<lparr>IP = [10, 0, 0, 0], Mask = [255, 255, 255, 0]\<rparr>]\<rparr>
        [0, 0, 0, 0, 0, 0, 0, 0, 0, 0, 0xff, 0xff, 10, 0, 0, 5]
   \<and> \<not> ipstore_Contains
        \<lparr>cfAPI = CFAPI, held = AnyNets [\<lparr>IP = [10, 0, 1, 0], Mask = [255, 255, 255, 0]\<rparr>]\<rparr>
        [0, 0, 0, 0, 0, 0, 0, 0, 0, 0, 0xff, 0xff, 10, 0, 0, 5]
   \<and> \<not> ipstore_Contains \<lparr>cfAPI = CFAPI, held = AnyNil\<rparr>
        [0, 0, 0, 0, 0, 0, 0, 0, 0, 0, 0xff, 0xff, 10, 0, 0, 5]
   \<and> (\<exists>cf. New (\<lambda>f u k. 0)
          \<lparr>NewRequest = (\<lambda>u. None), Do = Inr (200, ''200 OK''), ReadAll = Inr ''{}'',
           Unmarshal = (\<lambda>b. Inr \<lparr>GlobalIPList = [''10.0.1.0/24''], RegionalEdgeIPList = []\<rparr>)\<rparr>
          (\<lambda>k. AnyNil) () \<lparr>RefreshInterval = ''24h'', AllowedIPs = [''10.0.0.0/24'']\<rparr> ''gate''
        = Inr cf
        \<and> ipstore_Contains (ips cf) [0, 0, 0, 0, 0, 0, 0, 0, 0, 0, 0xff, 0xff, 10, 0, 0, 5])"
proof -
  let ?a = "[0, 0, 0, 0, 0, 0, 0, 0, 0, 0, 0xff, 0xff, 10, 0, 0, 5] :: byte list"
  let ?n1 = "\<lparr>IP = [10, 0, 1, 0], Mask = [255, 255, 255, 0]\<rparr>"
  let ?n0 = "\<lparr>IP = [10, 0, 0, 0], Mask = [255, 255, 255, 0]\<rparr>"
  let ?s2 = "\<lparr>cfAPI = CFAPI, held = AnyNets [?n1, ?n0]\<rparr>"
  let ?s1 = "\<lparr>cfAPI = CFAPI, held = AnyNets [?n1]\<rparr>"
  let ?s0 = "\<lparr>cfAPI = CFAPI, held = AnyNil\<rparr>"
  let ?w = "\<lparr>NewRequest = (\<lambda>u. None), Do = Inr (200, ''200 OK''), ReadAll = Inr ''{}'',
           Unmarshal = (\<lambda>b. Inr \<lparr>GlobalIPList = [''10.0.1.0/24''], RegionalEdgeIPList = []\<rparr>)\<rparr>"
  let ?cf = "\<lparr>next_handler = (), name = ''gate'',
             ips = \<lparr>cfAPI = CFAPI, held = AnyNets [?n0, ?n1]\<rparr>,
             refreshInterval = 86400000000000, trustedIPs = [?n0]\<rparr>"
  have la: "length ?a = 4 \<or> length ?a = 16" by simp
  note t = ipstore_Contains_iff_in_a_range [OF la]
  have p: "ParseIP ''10.0.0.5'' = Some ?a"
    by code_simp
  have q: "parseCIDRs [''10.0.1.0/24'', ''10.0.0.0/24''] = Inr [?n1, ?n0]"
    by code_simp
  have r0: "range_of ?n0 = \<lparr>fam = V4, base = 167772160, plen = 24\<rparr>"
    by code_simp
  have ad: "address_of ?a = (V4, 167772165)"
    by code_simp
  have v2: "Load ?s2 = AnyNets [?n1, ?n0] \<and> list_all valid_net [?n1, ?n0]"
    by code_simp
  have v1: "Load ?s1 = AnyNets [?n1] \<and> list_all valid_net [?n1]"
    by code_simp
  have i2: "\<exists>r \<in> set [?n1, ?n0]. in_range (range_of r) (address_of ?a)"
    by code_simp
  have i1: "\<not> (\<exists>r \<in> set [?n1]. in_range (range_of r) (address_of ?a))"
    by code_simp
  have i3: "\<exists>r \<in> set [?n0, ?n1]. in_range (range_of r) (address_of ?a)"
    by code_simp
  have n0: "\<forall>cidrs. Load ?s0 \<noteq> AnyNets cidrs"
    by (simp add: Load_def)
  have c2: "ipstore_Contains ?s2 ?a"
    using t [THEN conjunct1, THEN mp, OF v2] i2 by blast
  have c1: "\<not> ipstore_Contains ?s1 ?a"
    using t [THEN conjunct1, THEN mp, OF v1] i1 by blast
  have c0: "\<not> ipstore_Contains ?s0 ?a"
    using t [THEN conjunct2, THEN conjunct1, THEN mp, OF n0] .
  have n: "New (\<lambda>f u k. 0) ?w (\<lambda>k. AnyNil) ()
      \<lparr>RefreshInterval = ''24h'', AllowedIPs = [''10.0.0.0/24'']\<rparr> ''gate'' = Inr ?cf"
    by code_simp
  have l: "refreshLoop_select (\<lambda>k. AnyNil) ?cf [] [] = Waiting ?cf []
      \<or> refreshLoop_select (\<lambda>k. AnyNil) ?cf [] [] = Stopped ?cf []"
    by simp
  from t [THEN conjunct2, THEN conjunct2, THEN mp, OF conjI [OF n l]]
  obtain hd where "Load (ips ?cf) = AnyNets hd"
    and "ipstore_Contains (ips ?cf) ?a = (\<exists>r \<in> set hd. in_range (range_of r) (address_of ?a))"
    by blast
  then have "ipstore_Contains (ips ?cf) ?a"
    using i3 by (simp add: Load_def)
  with n have c3: "\<exists>cf. New (\<lambda>f u k. 0) ?w (\<lambda>k. AnyNil) ()
      \<lparr>RefreshInterval = ''24h'', AllowedIPs = [''10.0.0.0/24'']\<rparr> ''gate'' = Inr cf
        \<and> ipstore_Contains (ips cf) ?a"
    by blast
  from p q r0 ad c2 c1 c0 c3 show ?thesis by (intro conjI)
qed

subsection \<open>What holds of the interval check and of bare addresses\<close>

text \<open>
  \<open>New\<close> fails on an interval that \<open>time.ParseDuration\<close> refuses, and accepts every
  interval it parses, whatever its value: the gate carries the parsed number.
\<close>

lemma New_rejects_unparsed_interval:
  "ParseDuration fmul (RefreshInterval config) = Inl e \<Longrightarrow>
     New fmul w c nxt config nm = Inl (Errorf_w ''failed to parse refresh interval'' e)"
  by (simp add: New_def)

lemma New_accepts_every_parsed_interval:
  assumes "ParseDuration fmul (RefreshInterval config) = Inr d"
    and "parseCIDRs (AllowedIPs config) = Inr trusted"
    and "fetch (newIPStore CFAPI) (createContext c HTTPTimeoutDefault trusted) w = Inr remote"
  shows "New fmul w c nxt config nm =
     Inr \<lparr>next_handler = nxt, name = nm,
          ips = Store (newIPStore CFAPI) (AnyNets (trusted @ remote)),
          refreshInterval = d, trustedIPs = trusted\<rparr>"
  using assms
  by (simp add: New_def Update_success createContext_TrustedIPs)

text \<open>
  A bare IPv4 address becomes the network of that address with the mask of 32 ones,
  which contains that address and no other.
\<close>

lemma strings_Contains_slash: "strings_Contains s ''/'' \<longleftrightarrow> CHR ''/'' \<in> set s"
  by (induction s) auto

lemma IndexByteString_append:
  "c \<notin> set s \<Longrightarrow> IndexByteString (s @ c # t) c = Some (length s)"
  by (induction s) auto

lemma IP_Mask_ones_4in6:
  assumes "length b = 4"
  shows "IP_Mask (v4InV6Prefix @ b) [0xff, 0xff, 0xff, 0xff] = b"
proof -
  have "take 12 (v4InV6Prefix @ b) = v4InV6Prefix" and "drop 12 (v4InV6Prefix @ b) = b"
    and "length (v4InV6Prefix @ b) = 16"
    using assms by (simp_all add: v4InV6Prefix_def)
  then have "IP_Mask (v4InV6Prefix @ b) [0xff, 0xff, 0xff, 0xff]
      = map (\<lambda>i. (b ! i) AND ([0xff, 0xff, 0xff, 0xff] ! i)) [0..<4]"
    using assms by (simp add: IP_Mask_def IPv4len_def IPv6len_def Let_def)
  also have "\<dots> = map (\<lambda>i. b ! i) [0..<4]"
    by (simp add: and_ff numeral_eq_Suc)
  also have "\<dots> = b"
    using assms map_nth [of b] by simp
  finally show ?thesis .
qed

lemma parseCIDRs_bare_IPv4:
  assumes p: "ParseAddr s = Inr (IPv4Addr b)" and bare: "\<not> strings_Contains s ''/''"
  shows "parseCIDRs [s] = Inr [\<lparr>IP = b, Mask = [0xff, 0xff, 0xff, 0xff]\<rparr>]"
proof -
  from ParseAddr_length [OF p] have lb: "length b = 4" by simp
  from bare have ns: "CHR ''/'' \<notin> set s"
    by (simp add: strings_Contains_slash)
  have i: "IndexByteString (s @ ''/32'') (CHR ''/'') = Some (length s)"
    using IndexByteString_append [OF ns, of "''32''"] by simp
  have d: "dtoi ''32'' = (32, 2, True)"
    by code_simp
  have m: "CIDRMask 32 32 = [0xff, 0xff, 0xff, 0xff]"
    by code_simp
  have "ParseCIDR (s @ ''/32'')
      = Inr (v4InV6Prefix @ b, \<lparr>IP = b, Mask = [0xff, 0xff, 0xff, 0xff]\<rparr>)"
    using p by (simp add: ParseCIDR_def i d m IP_Mask_ones_4in6 [OF lb])
  with bare show ?thesis
    by (simp add: parseCIDRs_def)
qed

lemma single_address_net_Contains:
  assumes "length b = 4"
  shows "IPNet_Contains \<lparr>IP = b, Mask = [0xff, 0xff, 0xff, 0xff]\<rparr> ip \<longleftrightarrow> To4 ip = Some b"
proof -
  have nm: "networkNumberAndMask \<lparr>IP = b, Mask = [0xff, 0xff, 0xff, 0xff]\<rparr>
      = (b, [0xff, 0xff, 0xff, 0xff])"
    using assms by (simp add: networkNumberAndMask_def To4_of_4 IPv4len_def)
  show ?thesis
  proof (cases "To4 ip")
    case None
    then have "length ip \<noteq> 4" by (rule To4_None_length)
    with None assms show ?thesis
      by (simp add: IPNet_Contains_def nm)
  next
    case (Some x)
    then have lx: "length x = 4" by (rule To4_length)
    have mk: "[0xff, 0xff, 0xff, 0xff] = replicate 4 (0xff :: byte)"
      by (simp add: numeral_eq_Suc)
    have "list_all (\<lambda>i. (b ! i) AND ([0xff, 0xff, 0xff, 0xff] ! i)
          = (x ! i) AND ([0xff, 0xff, 0xff, 0xff] ! i)) [0..<4] \<longleftrightarrow> (\<forall>i < 4. b ! i = x ! i)"
      unfolding mk by (auto simp: list_all_iff and_ff)
    also have "\<dots> \<longleftrightarrow> x = b"
      using lx assms by (auto intro: nth_equalityI)
    finally have "list_all (\<lambda>i. (b ! i) AND ([0xff, 0xff, 0xff, 0xff] ! i)
          = (x ! i) AND ([0xff, 0xff, 0xff, 0xff] ! i)) [0..<4] \<longleftrightarrow> x = b" .
    with Some lx assms show ?thesis
      by (simp add: IPNet_Contains_def nm)
  qed
qed

end
